theory Spec2Isabelle
  imports Main "HOL-Library.Sublist"
begin

section \<open>Python strings\<close>

text \<open>
  A Python \<open>str\<close> is modelled as a \<open>string\<close>, a list of characters, each character a
  code point below 256; slices such as \<open>text[:500]\<close> are \<open>take 500 text\<close>. On these code
  points \<open>str.strip\<close> and \<open>str.split\<close> take as whitespace the characters
  \<open>\t \n \x0b \x0c \r \x1c \x1d \x1e \x1f\<close>, the space, \<open>\x85\<close> and \<open>\xa0\<close>, and
  \<open>str.lower\<close> maps \<open>A..Z\<close> and the capital letters \<open>\xc0..\xde\<close> other than \<open>\xd7\<close>
  to the character 32 places further and leaves every other character alone.
\<close>

definition newline :: char where
  "newline = CHR 0x0A"

definition is_space :: "char \<Rightarrow> bool" where
  "is_space c = (c \<in> set [CHR 0x09, CHR 0x0A, CHR 0x0B, CHR 0x0C, CHR 0x0D,
                            CHR 0x1C, CHR 0x1D, CHR 0x1E, CHR 0x1F, CHR 0x20,
                            CHR 0x85, CHR 0xA0])"

definition lstrip :: "string \<Rightarrow> string" where
  "lstrip s = dropWhile is_space s"

definition rstrip :: "string \<Rightarrow> string" where
  "rstrip s = rev (dropWhile is_space (rev s))"

definition strip :: "string \<Rightarrow> string" where
  "strip s = rstrip (lstrip s)"

definition lower_char :: "char \<Rightarrow> char" where
  "lower_char c =
     (let n = (of_char c :: nat)
      in if (65 \<le> n \<and> n \<le> 90) \<or> (192 \<le> n \<and> n \<le> 222 \<and> n \<noteq> 215)
         then char_of (n + 32) else c)"

definition lower :: "string \<Rightarrow> string" where
  "lower s = map lower_char s"

text \<open>\<open>s.split(sep)\<close> for a one-character separator: never empty, \<open>[""]\<close> on \<open>""\<close>.\<close>

fun split_on :: "char \<Rightarrow> string \<Rightarrow> string list" where
  "split_on sep [] = [[]]"
| "split_on sep (c # cs) =
     (if c = sep then [] # split_on sep cs
      else (case split_on sep cs of
              [] \<Rightarrow> [[c]]
            | l # ls \<Rightarrow> (c # l) # ls))"

text \<open>\<open>sep.join(xs)\<close>.\<close>

fun join :: "string \<Rightarrow> string list \<Rightarrow> string" where
  "join sep [] = []"
| "join sep [x] = x"
| "join sep (x # y # ys) = x @ sep @ join sep (y # ys)"

text \<open>\<open>s.split()\<close>: the maximal runs of non-whitespace characters.\<close>

fun split_ws_acc :: "string \<Rightarrow> string \<Rightarrow> string list" where
  "split_ws_acc cur [] = (if cur = [] then [] else [rev cur])"
| "split_ws_acc cur (c # cs) =
     (if is_space c then (if cur = [] then split_ws_acc [] cs else rev cur # split_ws_acc [] cs)
      else split_ws_acc (c # cur) cs)"

definition split_ws :: "string \<Rightarrow> string list" where
  "split_ws s = split_ws_acc [] s"

text \<open>\<open>a in b\<close> on two strings: \<open>a\<close> occurs in \<open>b\<close> as a contiguous substring.\<close>

fun contains :: "string \<Rightarrow> string \<Rightarrow> bool" where
  "contains [] a = (a = [])"
| "contains (c # cs) a = (prefix a (c # cs) \<or> contains cs a)"

section \<open>JSON values\<close>

text \<open>
  What \<open>json.loads\<close> returns and \<open>json.dump\<close> accepts. A Python \<open>dict\<close> keeps its
  insertion order, so an object is an association list; a decoded object has no
  duplicate keys. No function of the pipeline inspects a number.
\<close>

datatype json =
    JNull
  | JBool bool
  | JNum int
  | JStr string
  | JArr "json list"
  | JObj "(string \<times> json) list"

datatype error =
    JSONDecodeError
  | RecursionError
  | TypeError
  | AttributeError
  | IndexError
  | ValueError
  | RemoteError string

section \<open>The Annotate executor: parsing the response\<close>

text \<open>
  \<open>tag_episode\<close>, lines 173-183, on the text of the model's response. The JSON decoder
  is the library's \<open>json.loads\<close>; it is a parameter that returns the decoded value or
  the exception it raises: \<open>JSONDecodeError\<close> on text that is not JSON, or another one,
  as \<open>RecursionError\<close> on text nested too deeply. Line 182 catches \<open>JSONDecodeError\<close>
  only; any other exception leaves \<open>tag_episode\<close>.
\<close>

definition fence :: string where
  "fence = [CHR 0x60, CHR 0x60, CHR 0x60]"

definition unfence :: "string \<Rightarrow> string" where
  "unfence response_text =
     (let text = strip response_text in
      if prefix fence text
      then (let lines = split_on newline text in join [newline] (butlast (tl lines)))
      else text)"

definition parse_response :: "(string \<Rightarrow> error + json) \<Rightarrow> string \<Rightarrow> error + json" where
  "parse_response loads response_text =
     (let text = unfence response_text in
      case loads text of
        Inr v \<Rightarrow> Inr v
      | Inl err \<Rightarrow>
          if err = JSONDecodeError
          then Inr (JObj [(''error'', JStr ''Failed to parse response''),
                          (''raw'', JStr (take 500 text))])
          else Inl err)"

section \<open>Paths\<close>

text \<open>
  \<open>pathlib.Path(s)\<close> on a POSIX system: the string is cut at its slashes, empty
  components and \<open>.\<close> are dropped, and a leading slash is the root (two leading slashes,
  and only two, are kept as the root \<open>//\<close>). A path is modelled by the string that
  \<open>str\<close> gives for it. \<open>name\<close> is the last component, empty when there is none;
  \<open>stem\<close> and \<open>suffix\<close> cut the name at its last dot when that dot is neither the first
  nor the last character of the name; \<open>with_suffix\<close> raises \<open>ValueError\<close> on an empty
  name.
\<close>

type_synonym path = string

definition path_parts :: "string \<Rightarrow> string list" where
  "path_parts s = filter (\<lambda>c. c \<noteq> [] \<and> c \<noteq> ''.'') (split_on CHR ''/'' s)"

definition path_root :: "string \<Rightarrow> string" where
  "path_root s =
     (if \<not> prefix ''/'' s then []
      else if prefix ''//'' s \<and> \<not> prefix ''///'' s then ''//''
      else ''/'')"

definition Path :: "string \<Rightarrow> path" where
  "Path s =
     (if path_root s = [] \<and> path_parts s = [] then ''.''
      else path_root s @ join ''/'' (path_parts s))"

definition path_name :: "path \<Rightarrow> string" where
  "path_name p = (if path_parts p = [] then [] else last (path_parts p))"

definition name_stem :: "string \<Rightarrow> string" where
  "name_stem name =
     (let ext = rev (takeWhile (\<lambda>c. c \<noteq> CHR ''.'') (rev name));
          base = take (length name - length ext - 1) name
      in if CHR ''.'' \<in> set name \<and> base \<noteq> [] \<and> ext \<noteq> [] then base else name)"

definition stem :: "path \<Rightarrow> string" where
  "stem p = name_stem (path_name p)"

definition with_suffix :: "path \<Rightarrow> string \<Rightarrow> error + path" where
  "with_suffix p new_suffix =
     (if path_name p = [] then Inl ValueError
      else Inr (path_root p
                @ join ''/'' (butlast (path_parts p) @ [stem p @ new_suffix])))"

definition EPISODES_DIR :: path where "EPISODES_DIR = ''episodes''"
definition TRANSCRIPTS_DIR :: path where "TRANSCRIPTS_DIR = ''transcripts''"
definition TAGS_DIR :: path where "TAGS_DIR = ''tags''"
definition GCS_BUCKET :: string where "GCS_BUCKET = ''mlops-podcast-audio''"

definition transcript_path :: "string \<Rightarrow> path" where
  "transcript_path base_name = TRANSCRIPTS_DIR @ ''/'' @ base_name @ ''.txt''"

definition tags_path :: "string \<Rightarrow> path" where
  "tags_path base_name = TAGS_DIR @ ''/'' @ base_name @ ''.json''"

section \<open>Durable state and the outside world\<close>

text \<open>
  The Progress Ledger is the dict that \<open>load_progress\<close> creates and \<open>save_progress\<close>
  dumps to \<open>pipeline_progress.json\<close>: two lists of base names and a start time. An
  episode is an entry of \<open>episodes_metadata.json\<close> as the download scripts write it: a
  title and, when the audio was downloaded, a \<open>local_file\<close>.
\<close>

record progress =
  transcribed :: "string list"
  tagged :: "string list"
  started_at :: string

record episode =
  ep_title :: "string option"
  local_file :: "string option"

text \<open>
  One entry of \<open>calls\<close> for every invocation of a stage's executor proper: the
  \<open>ffmpeg\<close> subprocess, \<open>blob.upload_from_filename\<close>, \<open>long_running_recognize\<close> and
  \<open>generate_content\<close>. The log is not state of the program; it is what the claims
  about skipped and repeated calls are stated on.
\<close>

datatype call =
    Convert path
  | Upload path
  | Transcribe string
  | Annotate string

text \<open>
  The world: the paths that exist with their content, the names of the blobs in the
  bucket, the content of the ledger file when it exists, and the log of calls. Reading,
  writing and removing a local file do not fail.
\<close>

record world =
  files :: "path \<rightharpoonup> string"
  bucket :: "string set"
  ledger :: "progress option"
  calls :: "call list"

text \<open>
  What \<open>subprocess.run\<close> of \<open>ffmpeg\<close> gives: it returns with a return code, having left
  at the output path the content given (or nothing), or it raises.
\<close>

datatype ffmpeg_result =
    Exit int "string option"
  | SpawnFailed error

datatype poll = Pending | Finished | PollFailed error

text \<open>
  A long-running recognition operation: what \<open>operation.done()\<close> answers at the
  \<open>i\<close>-th poll, and what \<open>operation.result\<close> gives once it is done, either an error or
  the results in order, each with its list of alternatives.
\<close>

record operation =
  done_at :: "nat \<Rightarrow> poll"
  op_result :: "error + string list list"

text \<open>
  The collaborators. Every remote answer may depend on the moment of the call, which is
  the number of executor calls made so far. \<open>blob_exists_error\<close> is the exception that
  \<open>blob.exists()\<close> raises, if it raises. \<open>generate_content\<close> receives the title and the
  transcript prefix that the fixed prompt is built around, and gives the text of the
  response.
\<close>

record env =
  glob_mp3 :: "path list"
  ffmpeg :: "nat \<Rightarrow> path \<Rightarrow> path \<Rightarrow> ffmpeg_result"
  blob_exists_error :: "nat \<Rightarrow> string \<Rightarrow> error option"
  upload_from_filename :: "nat \<Rightarrow> path \<Rightarrow> string \<Rightarrow> error option"
  long_running_recognize :: "nat \<Rightarrow> string \<Rightarrow> error + operation"
  generate_content :: "nat \<Rightarrow> string \<Rightarrow> string \<Rightarrow> error + string"
  json_loads :: "string \<Rightarrow> error + json"
  json_dumps :: "json \<Rightarrow> string"
  now :: string

definition clock :: "world \<Rightarrow> nat" where
  "clock w = length (calls w)"

definition log_call :: "call \<Rightarrow> world \<Rightarrow> world" where
  "log_call c w = w\<lparr>calls := calls w @ [c]\<rparr>"

definition exists_file :: "world \<Rightarrow> path \<Rightarrow> bool" where
  "exists_file w p = (files w p \<noteq> None)"

definition write_text :: "path \<Rightarrow> string \<Rightarrow> world \<Rightarrow> world" where
  "write_text p s w = w\<lparr>files := (files w)(p \<mapsto> s)\<rparr>"

text \<open>\<open>if p.exists(): p.unlink()\<close>.\<close>

definition unlink_if_exists :: "path \<Rightarrow> world \<Rightarrow> world" where
  "unlink_if_exists p w = w\<lparr>files := (files w)(p := None)\<rparr>"

definition load_progress :: "env \<Rightarrow> world \<Rightarrow> progress" where
  "load_progress e w =
     (case ledger w of
        Some p \<Rightarrow> p
      | None \<Rightarrow> \<lparr>transcribed = [], tagged = [], started_at = now e\<rparr>)"

definition save_progress :: "progress \<Rightarrow> world \<Rightarrow> world" where
  "save_progress p w = w\<lparr>ledger := Some p\<rparr>"

section \<open>Stage executors\<close>

text \<open>What the subprocess left at the output path.\<close>

definition leave_output :: "path \<Rightarrow> string option \<Rightarrow> world \<Rightarrow> world" where
  "leave_output p out w = (case out of None \<Rightarrow> w | Some audio \<Rightarrow> write_text p audio w)"

definition convert_to_flac :: "env \<Rightarrow> world \<Rightarrow> path \<Rightarrow> (error + path option) \<times> world" where
  "convert_to_flac e w mp3_path =
     (case with_suffix mp3_path ''.flac'' of
        Inl err \<Rightarrow> (Inl err, w)
      | Inr flac_path \<Rightarrow>
          if exists_file w flac_path then (Inr (Some flac_path), w)
          else (case ffmpeg e (clock w) mp3_path flac_path of
                  SpawnFailed err \<Rightarrow> (Inl err, log_call (Convert mp3_path) w)
                | Exit returncode out \<Rightarrow>
                    (if returncode \<noteq> 0 then Inr None else Inr (Some flac_path),
                     leave_output flac_path out (log_call (Convert mp3_path) w))))"

definition blob_name_of :: "path \<Rightarrow> string" where
  "blob_name_of local_path = ''audio/'' @ path_name local_path"

definition gs_uri :: "string \<Rightarrow> string" where
  "gs_uri blob_name = ''gs://'' @ GCS_BUCKET @ ''/'' @ blob_name"

definition upload_to_gcs :: "env \<Rightarrow> world \<Rightarrow> path \<Rightarrow> (error + string) \<times> world" where
  "upload_to_gcs e w local_path =
     (let blob_name = blob_name_of local_path in
      case blob_exists_error e (clock w) blob_name of
        Some err \<Rightarrow> (Inl err, w)
      | None \<Rightarrow>
          if blob_name \<in> bucket w then (Inr (gs_uri blob_name), w)
          else (case upload_from_filename e (clock w) local_path blob_name of
                  Some err \<Rightarrow> (Inl err, log_call (Upload local_path) w)
                | None \<Rightarrow>
                    (Inr (gs_uri blob_name),
                     (log_call (Upload local_path) w)
                       \<lparr>bucket := insert blob_name (bucket w)\<rparr>)))"


text \<open>
  The polling loop of \<open>transcribe_from_gcs\<close>, lines 130-133:
  \<open>while not operation.done(): ...; time.sleep(10)\<close>. The loop has no exit other than
  \<open>done()\<close> answering true or raising, so it is a partial function: \<open>None\<close> is the
  loop that never ends. The result is the number of sleeps.
\<close>

partial_function (option) poll_until_done :: "(nat \<Rightarrow> poll) \<Rightarrow> nat \<Rightarrow> (error + nat) option" where
  "poll_until_done answers i =
     (case answers i of
        Pending \<Rightarrow> poll_until_done answers (Suc i)
      | Finished \<Rightarrow> Some (Inr i)
      | PollFailed err \<Rightarrow> Some (Inl err))"

text \<open>Lines 137-139: \<open>transcript += result.alternatives[0].transcript + "\n"\<close>.\<close>

fun append_results :: "string \<Rightarrow> string list list \<Rightarrow> error + string" where
  "append_results transcript [] = Inr transcript"
| "append_results transcript (alternatives # results) =
     (case alternatives of
        [] \<Rightarrow> Inl IndexError
      | a # _ \<Rightarrow> append_results (transcript @ a @ [newline]) results)"

definition transcribe_from_gcs :: "env \<Rightarrow> nat \<Rightarrow> string \<Rightarrow> (error + string) option" where
  "transcribe_from_gcs e t gcs_uri =
     (case long_running_recognize e t gcs_uri of
        Inl err \<Rightarrow> Some (Inl err)
      | Inr operation \<Rightarrow>
          (case poll_until_done (done_at operation) 0 of
             None \<Rightarrow> None
           | Some (Inl err) \<Rightarrow> Some (Inl err)
           | Some (Inr _) \<Rightarrow>
               (case op_result operation of
                  Inl err \<Rightarrow> Some (Inl err)
                | Inr results \<Rightarrow>
                    (case append_results [] results of
                       Inl err \<Rightarrow> Some (Inl err)
                     | Inr transcript \<Rightarrow> Some (Inr (strip transcript))))))"

definition tag_episode :: "env \<Rightarrow> nat \<Rightarrow> string \<Rightarrow> string \<Rightarrow> error + json" where
  "tag_episode e t transcript title =
     (case generate_content e t title (take 10000 transcript) of
        Inl err \<Rightarrow> Inl err
      | Inr response_text \<Rightarrow> parse_response (json_loads e) response_text)"


section \<open>The orchestrator\<close>

definition title_of :: "episode \<Rightarrow> string" where
  "title_of ep = (case ep_title ep of None \<Rightarrow> ''Unknown'' | Some t \<Rightarrow> t)"

text \<open>
  Lines 189-196: the \<open>local_file\<close> of the metadata, or else the first \<open>.mp3\<close> of the
  episodes directory whose name contains one of the first three words of the title.
\<close>

definition title_matches :: "string \<Rightarrow> path \<Rightarrow> bool" where
  "title_matches title f =
     list_ex (\<lambda>word. contains (lower (path_name f)) (lower word)) (take 3 (split_ws title))"

definition find_local_file :: "env \<Rightarrow> episode \<Rightarrow> string option" where
  "find_local_file e ep =
     (if local_file ep = None \<or> local_file ep = Some []
      then (case find (title_matches (title_of ep)) (glob_mp3 e) of
              Some f \<Rightarrow> Some f
            | None \<Rightarrow> local_file ep)
      else local_file ep)"

datatype outcome = Returned bool | Raised error

text \<open>Step 2 of \<open>process_episode\<close>, lines 247-267.\<close>

definition tag_step :: "env \<Rightarrow> string \<Rightarrow> string \<Rightarrow> string \<Rightarrow> progress \<Rightarrow> world
    \<Rightarrow> outcome \<times> progress \<times> world" where
  "tag_step e title base_name transcript p w =
     (let tags_file = tags_path base_name in
      if exists_file w tags_file then (Returned True, p, w)
      else (case tag_episode e (clock w) transcript title of
              Inl err \<Rightarrow> (Returned True, p, log_call (Annotate title) w)
            | Inr tags \<Rightarrow>
                (let w1 = write_text tags_file (json_dumps e tags) (log_call (Annotate title) w);
                     p1 = p\<lparr>tagged := tagged p @ [base_name]\<rparr>
                 in (Returned True, p1, save_progress p1 w1))))"

text \<open>
  The \<open>else\<close> branch of step 1, lines 211-245. \<open>None\<close> is a run that never leaves the
  polling loop of the Transcribe executor.
\<close>

definition transcribe_step :: "env \<Rightarrow> string \<Rightarrow> path \<Rightarrow> string \<Rightarrow> progress \<Rightarrow> world
    \<Rightarrow> (outcome \<times> progress \<times> world) option" where
  "transcribe_step e title mp3_path base_name p w =
     (case convert_to_flac e w mp3_path of
        (Inl err, w1) \<Rightarrow> Some (Raised err, p, w1)
      | (Inr None, w1) \<Rightarrow> Some (Returned False, p, w1)
      | (Inr (Some flac_path), w1) \<Rightarrow>
          (case upload_to_gcs e w1 flac_path of
             (Inl err, w2) \<Rightarrow> Some (Returned False, p, unlink_if_exists flac_path w2)
           | (Inr gcs_uri, w2) \<Rightarrow>
               (case transcribe_from_gcs e (clock w2) gcs_uri of
                  None \<Rightarrow> None
                | Some (Inl err) \<Rightarrow>
                    Some (Returned False, p,
                          unlink_if_exists flac_path (log_call (Transcribe gcs_uri) w2))
                | Some (Inr transcript) \<Rightarrow>
                    if transcript = []
                    then Some (Returned False, p, log_call (Transcribe gcs_uri) w2)
                    else (let w3 = write_text (transcript_path base_name) transcript
                                     (log_call (Transcribe gcs_uri) w2);
                              w4 = unlink_if_exists flac_path w3;
                              p1 = p\<lparr>transcribed := transcribed p @ [base_name]\<rparr>
                          in Some (tag_step e title base_name transcript p1
                                     (save_progress p1 w4))))))"

definition process_episode :: "env \<Rightarrow> episode \<Rightarrow> progress \<Rightarrow> world
    \<Rightarrow> (outcome \<times> progress \<times> world) option" where
  "process_episode e ep p w =
     (case find_local_file e ep of
        None \<Rightarrow> Some (Returned False, p, w)
      | Some lf \<Rightarrow>
          if lf = [] \<or> \<not> exists_file w (Path lf) then Some (Returned False, p, w)
          else (let mp3_path = Path lf; base_name = stem mp3_path in
                case files w (transcript_path base_name) of
                  Some transcript \<Rightarrow> Some (tag_step e (title_of ep) base_name transcript p w)
                | None \<Rightarrow> transcribe_step e (title_of ep) mp3_path base_name p w))"

text \<open>
  The loop of \<open>main\<close>, lines 359-372: whatever \<open>process_episode\<close> returns or raises,
  the next episode follows.
\<close>

fun main_loop :: "env \<Rightarrow> episode list \<Rightarrow> progress \<Rightarrow> world \<Rightarrow> (progress \<times> world) option" where
  "main_loop e [] p w = Some (p, w)"
| "main_loop e (ep # episodes) p w =
     (case process_episode e ep p w of
        None \<Rightarrow> None
      | Some (_, p1, w1) \<Rightarrow> main_loop e episodes p1 w1)"

section \<open>The Aggregator\<close>

text \<open>
  \<open>build_analysis_index\<close> reads every tags file of \<open>TAGS_DIR.glob("*.json")\<close>. Its input
  here is that scan: the stem of each file with its decoded content, in the order of the
  glob. The operations on the decoded value are Python's: \<open>"error" in data\<close>,
  \<open>data.get(key, default)\<close>, iteration and \<open>tag.lower()\<close> each fail on the types they
  are not defined on.
\<close>

definition ebind :: "error + 'a \<Rightarrow> ('a \<Rightarrow> error + 'b) \<Rightarrow> error + 'b" where
  "ebind m f = (case m of Inl err \<Rightarrow> Inl err | Inr x \<Rightarrow> f x)"

fun has_error :: "json \<Rightarrow> error + bool" where
  "has_error (JObj kvs) = Inr (''error'' \<in> set (map fst kvs))"
| "has_error (JArr xs) = Inr (JStr ''error'' \<in> set xs)"
| "has_error (JStr s) = Inr (contains s ''error'')"
| "has_error _ = Inl TypeError"

fun dict_get :: "json \<Rightarrow> string \<Rightarrow> json \<Rightarrow> error + json" where
  "dict_get (JObj kvs) key dflt =
     Inr (case map_of kvs key of Some v \<Rightarrow> v | None \<Rightarrow> dflt)"
| "dict_get _ key dflt = Inl AttributeError"

fun py_iter :: "json \<Rightarrow> error + json list" where
  "py_iter (JArr xs) = Inr xs"
| "py_iter (JStr s) = Inr (map (\<lambda>c. JStr [c]) s)"
| "py_iter (JObj kvs) = Inr (map (\<lambda>kv. JStr (fst kv)) kvs)"
| "py_iter _ = Inl TypeError"

fun str_lower :: "json \<Rightarrow> error + string" where
  "str_lower (JStr s) = Inr (lower s)"
| "str_lower _ = Inl AttributeError"

type_synonym counter = "(string \<times> int) list"

text \<open>\<open>d[k] = d.get(k, 0) + 1\<close> on a dict in insertion order.\<close>

fun bump :: "counter \<Rightarrow> string \<Rightarrow> counter" where
  "bump [] k = [(k, 1)]"
| "bump ((k', c) # d) k = (if k' = k then (k', c + 1) # d else (k', c) # bump d k)"

fun count_tags :: "counter \<Rightarrow> json list \<Rightarrow> error + counter" where
  "count_tags d [] = Inr d"
| "count_tags d (tag # tags) = ebind (str_lower tag) (\<lambda>tag_lower. count_tags (bump d tag_lower) tags)"

definition count_category :: "counter \<Rightarrow> json \<Rightarrow> string \<Rightarrow> error + counter" where
  "count_category d data key =
     ebind (dict_get data key (JArr [])) (\<lambda>v. ebind (py_iter v) (count_tags d))"

record episode_entry =
  entry_file :: string
  entry_summary :: json
  entry_guest :: json
  entry_tech_tags :: json

record tallies =
  all_tech_tags :: counter
  all_business_tags :: counter
  all_topics :: counter
  episodes_summary :: "episode_entry list"

text \<open>The body of the loop, lines 280-306, on one tags file.\<close>

definition scan_file :: "tallies \<Rightarrow> string \<times> json \<Rightarrow> error + tallies" where
  "scan_file st tags_file =
     (let data = snd tags_file in
      ebind (has_error data) (\<lambda>is_error.
        if is_error then Inr st
        else
          ebind (count_category (all_tech_tags st) data ''tech_tags'') (\<lambda>tech.
          ebind (count_category (all_business_tags st) data ''business_tags'') (\<lambda>business.
          ebind (count_category (all_topics st) data ''key_topics'') (\<lambda>topics.
          ebind (dict_get data ''summary'' (JStr [])) (\<lambda>sm.
          ebind (dict_get data ''guest'' (JObj [])) (\<lambda>gs.
          ebind (dict_get data ''tech_tags'' (JArr [])) (\<lambda>tt.
            Inr \<lparr>all_tech_tags = tech, all_business_tags = business, all_topics = topics,
                 episodes_summary = episodes_summary st @
                   [\<lparr>entry_file = fst tags_file, entry_summary = sm, entry_guest = gs,
                      entry_tech_tags = tt\<rparr>]\<rparr>))))))))"

fun scan_all :: "tallies \<Rightarrow> (string \<times> json) list \<Rightarrow> error + tallies" where
  "scan_all st [] = Inr st"
| "scan_all st (tags_file # rest) = ebind (scan_file st tags_file) (\<lambda>st'. scan_all st' rest)"

text \<open>\<open>sorted(d.items(), key=lambda x: -x[1])\<close>: Python's sort is stable, as \<open>sort_key\<close> is.\<close>

definition sort_by_frequency :: "counter \<Rightarrow> counter" where
  "sort_by_frequency d = sort_key (\<lambda>x. - snd x) d"

record analysis =
  generated_at :: string
  episodes_analyzed :: int
  top_tech_themes :: counter
  top_business_themes :: counter
  top_topics :: counter
  episodes :: "episode_entry list"

definition empty_tallies :: tallies where
  "empty_tallies = \<lparr>all_tech_tags = [], all_business_tags = [], all_topics = [],
                     episodes_summary = []\<rparr>"

definition build_analysis_index :: "string \<Rightarrow> (string \<times> json) list \<Rightarrow> error + analysis" where
  "build_analysis_index timestamp scan =
     ebind (scan_all empty_tallies scan) (\<lambda>st.
       Inr \<lparr>generated_at = timestamp,
            episodes_analyzed = int (length (episodes_summary st)),
            top_tech_themes = take 25 (sort_by_frequency (all_tech_tags st)),
            top_business_themes = take 20 (sort_by_frequency (all_business_tags st)),
            top_topics = take 20 (sort_by_frequency (all_topics st)),
            episodes = episodes_summary st\<rparr>)"

section \<open>Notions the properties are stated with\<close>

text \<open>
  What \<open>process_episode\<close> works on for an episode: the path of its audio file, the base
  name of that file when it exists (\<open>None\<close> is "No audio file found"), and the \<open>gs://\<close>
  address its FLAC is uploaded to and transcribed from.
\<close>

definition audio_path :: "env \<Rightarrow> episode \<Rightarrow> path option" where
  "audio_path e ep =
     (case find_local_file e ep of
        None \<Rightarrow> None
      | Some lf \<Rightarrow> if lf = [] then None else Some (Path lf))"

definition episode_base :: "env \<Rightarrow> world \<Rightarrow> episode \<Rightarrow> string option" where
  "episode_base e w ep =
     (case audio_path e ep of
        None \<Rightarrow> None
      | Some mp3 \<Rightarrow> if exists_file w mp3 then Some (stem mp3) else None)"

definition episode_uri :: "env \<Rightarrow> episode \<Rightarrow> string option" where
  "episode_uri e ep =
     (case audio_path e ep of
        None \<Rightarrow> None
      | Some mp3 \<Rightarrow>
          (case with_suffix mp3 ''.flac'' of
             Inl _ \<Rightarrow> None
           | Inr flac_path \<Rightarrow> Some (gs_uri (blob_name_of flac_path))))"

text \<open>The executor calls made between two states of the world.\<close>

definition new_calls :: "world \<Rightarrow> world \<Rightarrow> call list" where
  "new_calls w w1 = drop (length (calls w)) (calls w1)"

text \<open>Nothing is left to do for an episode: no audio file, or transcript and tags exist.\<close>

definition settled :: "env \<Rightarrow> world \<Rightarrow> episode \<Rightarrow> bool" where
  "settled e w ep =
     (case episode_base e w ep of
        None \<Rightarrow> True
      | Some b \<Rightarrow> exists_file w (transcript_path b) \<and> exists_file w (tags_path b))"

text \<open>
  An episode has reached the end of every stage: its transcript and its tags exist.
\<close>

definition done_stages :: "env \<Rightarrow> world \<Rightarrow> episode \<Rightarrow> bool" where
  "done_stages e w ep =
     (case audio_path e ep of
        None \<Rightarrow> False
      | Some mp3 \<Rightarrow>
          exists_file w (transcript_path (stem mp3)) \<and> exists_file w (tags_path (stem mp3)))"

text \<open>
  What the collaborators do for one episode, whenever they are called: every call of
  the episode's Transcribe raises; every call gives an empty transcript; every stage of
  the episode succeeds (it has an audio path, which is not itself a \<open>.flac\<close>, \<open>ffmpeg\<close>
  returns 0, the blob check and the upload go through, the transcript is not empty, the
  Annotate executor returns).
\<close>

definition transcribe_raises :: "env \<Rightarrow> episode \<Rightarrow> bool" where
  "transcribe_raises e ep =
     (case episode_uri e ep of
        None \<Rightarrow> False
      | Some uri \<Rightarrow> \<forall>t. \<exists>err. transcribe_from_gcs e t uri = Some (Inl err))"

definition transcribe_empty :: "env \<Rightarrow> episode \<Rightarrow> bool" where
  "transcribe_empty e ep =
     (case episode_uri e ep of
        None \<Rightarrow> False
      | Some uri \<Rightarrow> \<forall>t. transcribe_from_gcs e t uri = Some (Inr []))"

definition stages_succeed :: "env \<Rightarrow> episode \<Rightarrow> bool" where
  "stages_succeed e ep =
     (case audio_path e ep of
        None \<Rightarrow> False
      | Some mp3 \<Rightarrow>
          \<not> suffix ''.flac'' mp3 \<and>
          (case with_suffix mp3 ''.flac'' of
             Inl _ \<Rightarrow> False
           | Inr flac_path \<Rightarrow>
               (\<forall>t. \<exists>out. ffmpeg e t mp3 flac_path = Exit 0 out)
               \<and> (\<forall>t. blob_exists_error e t (blob_name_of flac_path) = None)
               \<and> (\<forall>t. upload_from_filename e t flac_path (blob_name_of flac_path) = None)
               \<and> (\<forall>t. \<exists>tr. tr \<noteq> []
                      \<and> transcribe_from_gcs e t (gs_uri (blob_name_of flac_path)) = Some (Inr tr))
               \<and> (\<forall>t tr. \<exists>tags. tag_episode e t tr (title_of ep) = Inr tags)))"

text \<open>
  The tag texts that the Aggregator counts in one category: the strings under the
  category's key in every scanned file that is not an error variant, in scan order.
  \<open>first_seen ks k\<close> is the position at which \<open>k\<close> is first met in \<open>ks\<close>.
\<close>

definition tag_texts :: "string \<Rightarrow> json \<Rightarrow> string list" where
  "tag_texts key data =
     (case ebind (dict_get data key (JArr [])) py_iter of
        Inl _ \<Rightarrow> []
      | Inr tags \<Rightarrow> concat (map (\<lambda>t. case t of JStr s \<Rightarrow> [s] | _ \<Rightarrow> []) tags))"

definition category_texts :: "string \<Rightarrow> (string \<times> json) list \<Rightarrow> string list" where
  "category_texts key scan =
     concat (map (\<lambda>tf. tag_texts key (snd tf))
                 (filter (\<lambda>tf. has_error (snd tf) = Inr False) scan))"

definition first_seen :: "string list \<Rightarrow> string \<Rightarrow> nat" where
  "first_seen ks k = length (takeWhile (\<lambda>x. x \<noteq> k) ks)"

text \<open>
  The ranking of the keys \<open>ks\<close>, met in that order: every key that was met is listed
  once, with the number of times it was met; frequencies descend; the entries of one
  frequency stand in the order in which their keys were first met.
\<close>

definition ranked_descending_first_seen :: "string list \<Rightarrow> counter \<Rightarrow> bool" where
  "ranked_descending_first_seen ks ranked =
     (sorted_wrt (\<lambda>x y. snd y \<le> snd x) ranked
      \<and> (\<forall>c. sorted_wrt (\<lambda>x y. first_seen ks (fst x) < first_seen ks (fst y))
                 (filter (\<lambda>x. snd x = c) ranked)))"

definition is_ranking :: "string list \<Rightarrow> counter \<Rightarrow> bool" where
  "is_ranking ks ranked =
     (distinct (map fst ranked)
      \<and> set (map fst ranked) = set ks
      \<and> (\<forall>x\<in>set ranked. snd x = int (count_list ks (fst x)))
      \<and> ranked_descending_first_seen ks ranked)"

section \<open>Concrete inputs\<close>

text \<open>
  A decoder that accepts the empty object, raises \<open>RecursionError\<close> on a thousand
  opening brackets and \<open>JSONDecodeError\<close> on anything else.
\<close>

definition loads_sample :: "string \<Rightarrow> error + json" where
  "loads_sample s =
     (if s = ''{}'' then Inr (JObj [])
      else if s = replicate 1000 CHR ''['' then Inl RecursionError
      else Inl JSONDecodeError)"

text \<open>A serializer for flat objects of strings; anything else it writes as \<open>null\<close>.\<close>

definition quoted :: "string \<Rightarrow> string" where
  "quoted s = CHR 0x22 # s @ [CHR 0x22]"

definition dumps_sample :: "json \<Rightarrow> string" where
  "dumps_sample v =
     (case v of
        JObj kvs \<Rightarrow>
          ''{'' @ join '', ''
                   (map (\<lambda>kv. quoted (fst kv) @ '': ''
                                @ (case snd kv of JStr s \<Rightarrow> quoted s | _ \<Rightarrow> ''null'')) kvs)
              @ ''}''
      | _ \<Rightarrow> ''null'')"

definition fenced_empty_object :: string where
  "fenced_empty_object = fence @ ''json'' @ [newline] @ ''{}'' @ [newline] @ fence"

text \<open>An operation that is done at the third poll, and one that is never done.\<close>

definition op_two_segments :: operation where
  "op_two_segments =
     \<lparr>done_at = (\<lambda>i. if i < 2 then Pending else Finished),
      op_result = Inr [[''hello world'', ''hollow world''], ['' and welcome'']]\<rparr>"

definition op_never_done :: operation where
  "op_never_done = \<lparr>done_at = (\<lambda>i. Pending), op_result = Inr [[''unreachable'']]\<rparr>"

definition env_ok :: env where
  "env_ok =
     \<lparr>glob_mp3 = [''episodes/ep1-intro.mp3'', ''episodes/ep2-feature-stores.mp3'',
                  ''episodes/ep3-data-drift.mp3''],
      ffmpeg = (\<lambda>t mp3 flac. Exit 0 (Some ''fLaC'')),
      blob_exists_error = (\<lambda>t blob_name. None),
      upload_from_filename = (\<lambda>t local_path blob_name. None),
      long_running_recognize = (\<lambda>t uri. Inr op_two_segments),
      generate_content = (\<lambda>t title transcript. Inr ''{}''),
      json_loads = loads_sample,
      json_dumps = dumps_sample,
      now = ''2024-05-01T09:00:00''\<rparr>"

definition env_hanging :: env where
  "env_hanging = env_ok\<lparr>long_running_recognize := (\<lambda>t uri. Inr op_never_done)\<rparr>"

text \<open>
  Annotation services that answer with text that is not JSON, with 501 characters that
  are not JSON, with one fenced line, with a thousand opening brackets, and one that
  raises.
\<close>

definition env_garbled :: env where
  "env_garbled = env_ok\<lparr>generate_content := (\<lambda>t title transcript. Inr ''not json'')\<rparr>"

definition env_flood :: env where
  "env_flood =
     env_ok\<lparr>generate_content := (\<lambda>t title transcript. Inr (replicate 501 CHR ''x''))\<rparr>"

definition fenced_line :: string where
  "fenced_line = fence @ ''not json'' @ fence"

definition env_fenced_line :: env where
  "env_fenced_line = env_ok\<lparr>generate_content := (\<lambda>t title transcript. Inr fenced_line)\<rparr>"

definition env_nested :: env where
  "env_nested =
     env_ok\<lparr>generate_content := (\<lambda>t title transcript. Inr (replicate 1000 CHR ''[''))\<rparr>"

definition env_quota :: env where
  "env_quota =
     env_ok\<lparr>generate_content := (\<lambda>t title transcript. Inl (RemoteError ''429 quota exceeded''))\<rparr>"

text \<open>
  Three episodes; the second has no \<open>local_file\<close> in its metadata and is found by its
  title. A recognition service that is unavailable for the third episode, one that
  returns a last empty segment, and one that hears nothing.
\<close>

definition ep_intro :: episode where
  "ep_intro = \<lparr>ep_title = Some ''Intro to MLOps'', local_file = Some ''episodes/ep1-intro.mp3''\<rparr>"

definition ep_stores :: episode where
  "ep_stores = \<lparr>ep_title = Some ''Feature Stores'', local_file = None\<rparr>"

definition ep_drift :: episode where
  "ep_drift = \<lparr>ep_title = Some ''Data Drift'', local_file = Some ''episodes/ep3-data-drift.mp3''\<rparr>"

definition env_unavailable :: env where
  "env_unavailable =
     env_ok\<lparr>long_running_recognize :=
       (\<lambda>t uri. if uri = ''gs://mlops-podcast-audio/audio/ep3-data-drift.flac''
                then Inl (RemoteError ''503 service unavailable'')
                else Inr op_two_segments)\<rparr>"

definition op_trailing_empty :: operation where
  "op_trailing_empty =
     \<lparr>done_at = (\<lambda>i. Finished), op_result = Inr [[''hello world''], ['''']]\<rparr>"

definition env_trailing_empty :: env where
  "env_trailing_empty = env_ok\<lparr>long_running_recognize := (\<lambda>t uri. Inr op_trailing_empty)\<rparr>"

definition op_silence :: operation where
  "op_silence = \<lparr>done_at = (\<lambda>i. Finished), op_result = Inr [['' ''], ['''']]\<rparr>"

definition env_silence :: env where
  "env_silence = env_ok\<lparr>long_running_recognize := (\<lambda>t uri. Inr op_silence)\<rparr>"

text \<open>
  A fresh state with the three audio files, the state a first run over the first two
  episodes leaves, and the state after the third episode alone was processed and its
  Transcribe call raised.
\<close>

definition w_fresh :: world where
  "w_fresh =
     \<lparr>files = [''episodes/ep1-intro.mp3'' \<mapsto> ''ID3'',
               ''episodes/ep2-feature-stores.mp3'' \<mapsto> ''ID3'',
               ''episodes/ep3-data-drift.mp3'' \<mapsto> ''ID3''],
      bucket = {}, ledger = None, calls = []\<rparr>"

definition p_fresh :: progress where
  "p_fresh = \<lparr>transcribed = [], tagged = [], started_at = ''2024-05-01T09:00:00''\<rparr>"

definition transcript_two_segments :: string where
  "transcript_two_segments = ''hello world'' @ newline # '' and welcome''"

definition p_after_run :: progress where
  "p_after_run =
     \<lparr>transcribed = [''ep1-intro'', ''ep2-feature-stores''],
      tagged = [''ep1-intro'', ''ep2-feature-stores''],
      started_at = ''2024-05-01T09:00:00''\<rparr>"

definition w_after_run :: world where
  "w_after_run =
     \<lparr>files = [''episodes/ep1-intro.mp3'' \<mapsto> ''ID3'',
               ''episodes/ep2-feature-stores.mp3'' \<mapsto> ''ID3'',
               ''episodes/ep3-data-drift.mp3'' \<mapsto> ''ID3'',
               ''transcripts/ep1-intro.txt'' \<mapsto> transcript_two_segments,
               ''tags/ep1-intro.json'' \<mapsto> ''{}'',
               ''transcripts/ep2-feature-stores.txt'' \<mapsto> transcript_two_segments,
               ''tags/ep2-feature-stores.json'' \<mapsto> ''{}''],
      bucket = {''audio/ep2-feature-stores.flac'', ''audio/ep1-intro.flac''},
      ledger = Some p_after_run,
      calls = [Convert ''episodes/ep1-intro.mp3'', Upload ''episodes/ep1-intro.flac'',
               Transcribe ''gs://mlops-podcast-audio/audio/ep1-intro.flac'',
               Annotate ''Intro to MLOps'',
               Convert ''episodes/ep2-feature-stores.mp3'',
               Upload ''episodes/ep2-feature-stores.flac'',
               Transcribe ''gs://mlops-podcast-audio/audio/ep2-feature-stores.flac'',
               Annotate ''Feature Stores'']\<rparr>"

definition w_after_failure :: world where
  "w_after_failure =
     \<lparr>files = [''episodes/ep1-intro.mp3'' \<mapsto> ''ID3'',
               ''episodes/ep2-feature-stores.mp3'' \<mapsto> ''ID3'',
               ''episodes/ep3-data-drift.mp3'' \<mapsto> ''ID3''],
      bucket = {''audio/ep3-data-drift.flac''},
      ledger = None,
      calls = [Convert ''episodes/ep3-data-drift.mp3'', Upload ''episodes/ep3-data-drift.flac'',
               Transcribe ''gs://mlops-podcast-audio/audio/ep3-data-drift.flac'']\<rparr>"

text \<open>Annotations of two episodes, an error variant, and one with 27 technology tags.\<close>

definition tags_mlflow_upper :: json where
  "tags_mlflow_upper =
     JObj [(''tech_tags'', JArr [JStr ''Kubernetes'', JStr ''MLflow'', JStr ''Docker'']),
           (''business_tags'', JArr [JStr ''ROI'']),
           (''key_topics'', JArr [JStr ''Model serving'']),
           (''summary'', JStr ''Serving models on Kubernetes'')]"

definition tags_mlflow_lower :: json where
  "tags_mlflow_lower =
     JObj [(''tech_tags'', JArr [JStr ''mlflow'', JStr ''Ray'']),
           (''business_tags'', JArr [JStr ''roi'', JStr ''Hiring'']),
           (''key_topics'', JArr [JStr ''model serving''])]"

definition tags_error_variant :: json where
  "tags_error_variant =
     JObj [(''error'', JStr ''Failed to parse response''), (''raw'', JStr ''not json'')]"

definition tags_alphabet :: json where
  "tags_alphabet =
     JObj [(''tech_tags'',
            JArr (JStr ''MLflow'' # map (\<lambda>c. JStr [c]) ''abcdefghijklmnopqrstuvwxyz''))]"

definition scan_two :: "(string \<times> json) list" where
  "scan_two = [(''ep1-intro'', tags_mlflow_upper), (''ep2-feature-stores'', tags_mlflow_lower)]"

definition scan_alphabet :: "(string \<times> json) list" where
  "scan_alphabet = [(''ep1-intro'', tags_alphabet), (''ep2-feature-stores'', tags_mlflow_lower)]"


text \<open>The indexes built from these scans.\<close>

definition index_two :: analysis where
  "index_two =
     \<lparr>generated_at = ''2024-05-01'', episodes_analyzed = 2,
      top_tech_themes = [(''mlflow'', 2), (''kubernetes'', 1), (''docker'', 1), (''ray'', 1)],
      top_business_themes = [(''roi'', 2), (''hiring'', 1)],
      top_topics = [(''model serving'', 2)],
      episodes =
        [\<lparr>entry_file = ''ep1-intro'',
           entry_summary = JStr ''Serving models on Kubernetes'', entry_guest = JObj [],
           entry_tech_tags = JArr [JStr ''Kubernetes'', JStr ''MLflow'', JStr ''Docker'']\<rparr>,
         \<lparr>entry_file = ''ep2-feature-stores'', entry_summary = JStr [],
           entry_guest = JObj [],
           entry_tech_tags = JArr [JStr ''mlflow'', JStr ''Ray'']\<rparr>]\<rparr>"

definition index_two_rev :: analysis where
  "index_two_rev =
     \<lparr>generated_at = ''2024-05-01'', episodes_analyzed = 2,
      top_tech_themes = [(''mlflow'', 2), (''ray'', 1), (''kubernetes'', 1), (''docker'', 1)],
      top_business_themes = [(''roi'', 2), (''hiring'', 1)],
      top_topics = [(''model serving'', 2)],
      episodes =
        [\<lparr>entry_file = ''ep2-feature-stores'', entry_summary = JStr [],
           entry_guest = JObj [],
           entry_tech_tags = JArr [JStr ''mlflow'', JStr ''Ray'']\<rparr>,
         \<lparr>entry_file = ''ep1-intro'',
           entry_summary = JStr ''Serving models on Kubernetes'', entry_guest = JObj [],
           entry_tech_tags = JArr [JStr ''Kubernetes'', JStr ''MLflow'', JStr ''Docker'']\<rparr>]\<rparr>"

definition index_alphabet :: analysis where
  "index_alphabet =
     \<lparr>generated_at = ''2024-05-01'', episodes_analyzed = 2,
      top_tech_themes =
        [(''mlflow'', 2), (''a'', 1), (''b'', 1), (''c'', 1), (''d'', 1), (''e'', 1),
         (''f'', 1), (''g'', 1), (''h'', 1), (''i'', 1), (''j'', 1), (''k'', 1),
         (''l'', 1), (''m'', 1), (''n'', 1), (''o'', 1), (''p'', 1), (''q'', 1),
         (''r'', 1), (''s'', 1), (''t'', 1), (''u'', 1), (''v'', 1), (''w'', 1),
         (''x'', 1)],
      top_business_themes = [(''roi'', 1), (''hiring'', 1)],
      top_topics = [(''model serving'', 1)],
      episodes =
        [\<lparr>entry_file = ''ep1-intro'', entry_summary = JStr [], entry_guest = JObj [],
           entry_tech_tags =
             JArr (JStr ''MLflow'' # map (\<lambda>c. JStr [c]) ''abcdefghijklmnopqrstuvwxyz'')\<rparr>,
         \<lparr>entry_file = ''ep2-feature-stores'', entry_summary = JStr [],
           entry_guest = JObj [],
           entry_tech_tags = JArr [JStr ''mlflow'', JStr ''Ray'']\<rparr>]\<rparr>"
section \<open>Properties of the string operations\<close>

lemma split_on_nonempty: "split_on sep s \<noteq> []"
  by (induction s) (auto split: list.splits)

lemma split_on_no_sep: "sep \<notin> set a \<Longrightarrow> split_on sep a = [a]"
  by (induction a) auto

lemma split_on_append: "split_on sep (a @ sep # b) = split_on sep a @ split_on sep b"
proof (induction a)
  case Nil
  then show ?case by simp
next
  case (Cons c a)
  then show ?case
    using split_on_nonempty [of sep a]
    by (cases "split_on sep a") auto
qed

lemma join_split_on: "join [sep] (split_on sep s) = s"
proof (induction s)
  case Nil
  then show ?case by simp
next
  case (Cons c s)
  show ?case
  proof (cases "split_on sep s")
    case Nil
    then show ?thesis using split_on_nonempty by blast
  next
    case (Cons l ls)
    with Cons.IH show ?thesis by (cases ls) auto
  qed
qed

lemma unfence_fenced:
  assumes "strip r = opening @ newline # payload @ newline # closing"
    and "prefix fence opening" and "newline \<notin> set opening" and "newline \<notin> set closing"
  shows "unfence r = payload"
proof -
  have "split_on newline (strip r) = opening # split_on newline payload @ [closing]"
    using assms(3,4) by (simp add: assms(1) split_on_append split_on_no_sep)
  moreover have "prefix fence (strip r)"
    using assms(1,2) by (metis prefix_prefix)
  ultimately show ?thesis
    by (simp add: unfence_def Let_def join_split_on)
qed

lemma is_space_newline: "is_space newline"
  by (simp add: is_space_def newline_def)

lemma strip_snoc_space: "is_space c \<Longrightarrow> strip (s @ [c]) = strip s"
proof (cases "\<forall>x\<in>set s. is_space x")
  case True
  assume "is_space c"
  with True have "lstrip (s @ [c]) = []" "lstrip s = []" by (auto simp: lstrip_def)
  then show ?thesis by (simp add: strip_def)
next
  case False
  assume c: "is_space c"
  from False have "lstrip (s @ [c]) = lstrip s @ [c]"
    by (auto simp: lstrip_def)
  with c show ?thesis by (simp add: strip_def rstrip_def)
qed

lemma concat_terminated:
  "segs \<noteq> [] \<Longrightarrow> concat (map (\<lambda>s. s @ [c]) segs) = join [c] segs @ [c]"
  by (induction segs rule: join.induct [where ?a0.0 = "[c]"]) auto

lemma strip_terminated:
  "strip (concat (map (\<lambda>s. s @ [newline]) segs)) = strip (join [newline] segs)"
  by (cases "segs = []") (simp_all add: concat_terminated strip_snoc_space is_space_newline)

section \<open>The polling loop\<close>

lemma poll_until_done_Some_stops:
  assumes "poll_until_done d i = Some r"
  shows "\<exists>k. d (i + k) \<noteq> Pending"
proof (rule poll_until_done.raw_induct [of "\<lambda>d i r. \<exists>k. d (i + k) \<noteq> Pending" d i r])
  fix f dd ii rr
  assume IH: "\<And>d' i' r'. f d' i' = Some r' \<Longrightarrow> \<exists>k. d' (i' + k) \<noteq> Pending"
    and eq: "(case dd ii of Pending \<Rightarrow> f dd (Suc ii) | Finished \<Rightarrow> Some (Inr ii)
              | PollFailed err \<Rightarrow> Some (Inl err)) = Some rr"
  show "\<exists>k. dd (ii + k) \<noteq> Pending"
  proof (cases "dd ii")
    case Pending
    with eq have "f dd (Suc ii) = Some rr" by simp
    then obtain k where "dd (Suc ii + k) \<noteq> Pending" using IH by blast
    then have "dd (ii + Suc k) \<noteq> Pending" by simp
    then show ?thesis by blast
  next
    case Finished
    then have "dd (ii + 0) \<noteq> Pending" by simp
    then show ?thesis by blast
  next
    case (PollFailed err)
    then have "dd (ii + 0) \<noteq> Pending" by simp
    then show ?thesis by blast
  qed
next
  show "poll_until_done d i = Some r" by fact
qed

lemma poll_until_done_never: "(\<And>j. d j = Pending) \<Longrightarrow> poll_until_done d i = None"
  using poll_until_done_Some_stops [of d i] by (cases "poll_until_done d i") auto

lemma poll_until_done_finishes:
  "(\<And>j. j < k \<Longrightarrow> d (i + j) = Pending) \<Longrightarrow> d (i + k) = Finished
     \<Longrightarrow> poll_until_done d i = Some (Inr (i + k))"
proof (induction k arbitrary: i)
  case 0
  then show ?case by (subst poll_until_done.simps) simp
next
  case (Suc k)
  have "d i = Pending" using Suc.prems(1) [of 0] by simp
  moreover have "poll_until_done d (Suc i) = Some (Inr (Suc i + k))"
  proof (rule Suc.IH)
    fix j assume "j < k"
    then show "d (Suc i + j) = Pending" using Suc.prems(1) [of "Suc j"] by simp
  next
    show "d (Suc i + k) = Finished" using Suc.prems(2) by simp
  qed
  ultimately show ?case by (subst poll_until_done.simps) simp
qed

lemma append_results_first:
  "(\<And>alts. alts \<in> set results \<Longrightarrow> alts \<noteq> [])
     \<Longrightarrow> append_results acc results =
         Inr (acc @ concat (map (\<lambda>alts. hd alts @ [newline]) results))"
proof (induction results arbitrary: acc)
  case Nil
  then show ?case by simp
next
  case (Cons alts results)
  then show ?case by (cases alts) auto
qed

text \<open>
  C2. The claim: the Transcribe executor polls until completion or a ceiling timeout,
  and an operation that never completes makes it fail. The code: the loop of lines
  130-133 has no ceiling; the \<open>timeout=1800\<close> of line 135 is reached only after the loop
  has ended. On an operation that is never done the executor does not return at all.
\<close>

theorem transcribe_never_done_hangs:
  "transcribe_from_gcs env_hanging 0 ''gs://mlops-podcast-audio/audio/ep1-intro.flac'' = None"
proof -
  have "poll_until_done (done_at op_never_done) 0 = None"
    by (rule poll_until_done_never) (simp add: op_never_done_def)
  then show ?thesis
    by (simp add: transcribe_from_gcs_def env_hanging_def env_ok_def)
qed


section \<open>The Annotate executor\<close>

lemma strip_id:
  "s \<noteq> [] \<Longrightarrow> \<not> is_space (hd s) \<Longrightarrow> \<not> is_space (last s) \<Longrightarrow> strip s = s"
proof -
  assume s: "s \<noteq> []" and h: "\<not> is_space (hd s)" and l: "\<not> is_space (last s)"
  from s h have "lstrip s = s" by (cases s) (simp_all add: lstrip_def)
  moreover from s obtain ys y where "s = ys @ [y]" by (cases s rule: rev_cases) auto
  with l have "rstrip s = s" by (simp add: rstrip_def)
  ultimately show ?thesis by (simp add: strip_def)
qed

lemma prefix_fence_hd: "prefix fence s \<Longrightarrow> s \<noteq> [] \<and> hd s = CHR 0x60"
  by (auto simp: fence_def prefix_def)

lemma unfence_plain: "strip r = r \<Longrightarrow> \<not> prefix fence r \<Longrightarrow> unfence r = r"
  by (simp add: unfence_def)

lemma strip_not_json: "strip ''not json'' = ''not json''"
  by (rule strip_id) (simp_all add: is_space_def)

lemma unfence_not_json: "unfence ''not json'' = ''not json''"
  using prefix_fence_hd [of "''not json''"] by (intro unfence_plain strip_not_json) auto

lemma unfence_fenced_line: "unfence fenced_line = []"
proof -
  have s: "strip fenced_line = fenced_line"
    by (rule strip_id) (simp_all add: fenced_line_def fence_def is_space_def)
  have "newline \<notin> set fenced_line" by (simp add: fenced_line_def fence_def newline_def)
  then have "split_on newline fenced_line = [fenced_line]" by (rule split_on_no_sep)
  moreover have "prefix fence fenced_line" by (simp add: fenced_line_def)
  ultimately show ?thesis by (simp add: unfence_def s)
qed

lemma unfence_replicate:
  assumes "0 < n" and "\<not> is_space c" and "c \<noteq> CHR 0x60"
  shows "unfence (replicate n c) = replicate n c"
proof -
  from assms have "strip (replicate n c) = replicate n c"
    by (intro strip_id) simp_all
  moreover from assms have "\<not> prefix fence (replicate n c)"
    using prefix_fence_hd [of "replicate n c"] by auto
  ultimately show ?thesis by (rule unfence_plain)
qed

lemma neq_by_length: "length s \<noteq> length t \<Longrightarrow> s \<noteq> t"
  by auto

lemma loads_sample_values:
  "loads_sample ''{}'' = Inr (JObj [])"
  "loads_sample [] = Inl JSONDecodeError"
  "loads_sample ''not json'' = Inl JSONDecodeError"
  "loads_sample (replicate 501 CHR ''x'') = Inl JSONDecodeError"
  "loads_sample (replicate 1000 CHR ''['') = Inl RecursionError"
proof -
  have a: "''{}'' \<noteq> replicate 1000 CHR ''[''" "[] \<noteq> replicate 1000 CHR ''[''"
    "''not json'' \<noteq> replicate 1000 CHR ''[''"
    "replicate 501 CHR ''x'' \<noteq> replicate 1000 CHR ''[''"
    "replicate 501 CHR ''x'' \<noteq> ''{}''" "replicate 1000 CHR ''['' \<noteq> ''{}''"
    by (rule neq_by_length, simp)+
  show "loads_sample ''{}'' = Inr (JObj [])" by (simp add: loads_sample_def)
  show "loads_sample [] = Inl JSONDecodeError" using a(2) by (simp add: loads_sample_def)
  show "loads_sample ''not json'' = Inl JSONDecodeError"
    using a(3) by (simp add: loads_sample_def)
  show "loads_sample (replicate 501 CHR ''x'') = Inl JSONDecodeError"
    using a(4,5) by (simp add: loads_sample_def)
  show "loads_sample (replicate 1000 CHR ''['') = Inl RecursionError"
    using a(6) by (simp add: loads_sample_def)
qed

text \<open>
  C7, as the claim states it, fails: the error variant does not always hold the response
  text. A response that is one fenced line, \<open>```not json```\<close>, is kept as the empty
  string; a response of 501 characters that is not JSON is kept as its first 500
  characters.
\<close>

theorem unparseable_response_is_not_kept_whole:
  "tag_episode env_fenced_line 0 ''some transcript'' ''Intro''
     = Inr (JObj [(''error'', JStr ''Failed to parse response''), (''raw'', JStr [])])
   \<and> tag_episode env_flood 0 ''some transcript'' ''Intro''
     = Inr (JObj [(''error'', JStr ''Failed to parse response''),
                  (''raw'', JStr (replicate 500 CHR ''x''))])
   \<and> replicate 500 CHR ''x'' \<noteq> replicate 501 CHR ''x''"
proof -
  have "replicate 500 CHR ''x'' \<noteq> replicate 501 CHR ''x''"
    by (rule neq_by_length) simp
  moreover have "unfence (replicate 501 CHR ''x'') = replicate 501 CHR ''x''"
    by (rule unfence_replicate) (simp_all add: is_space_def)
  then have "parse_response loads_sample (replicate 501 CHR ''x'')
      = Inr (JObj [(''error'', JStr ''Failed to parse response''),
                   (''raw'', JStr (replicate 500 CHR ''x''))])"
    by (simp add: parse_response_def loads_sample_values)
  moreover have "parse_response loads_sample fenced_line
      = Inr (JObj [(''error'', JStr ''Failed to parse response''), (''raw'', JStr [])])"
    by (simp add: parse_response_def unfence_fenced_line loads_sample_values)
  ultimately show ?thesis
    by (simp add: tag_episode_def env_flood_def env_fenced_line_def env_ok_def)
qed

text \<open>
  C7, amended. The text handed to the decoder is the response stripped of surrounding
  whitespace and, when that begins with a code fence, without its first and last lines.
  When the decoder raises \<open>JSONDecodeError\<close> on it, the Annotate executor does not
  raise: it returns the error variant, whose \<open>raw\<close> field is the first 500 characters
  of that text, and the orchestrator writes the variant to the tags file; for a response
  of at most 500 characters with no surrounding whitespace and no fence at its start, as
  \<open>not json\<close> is, \<open>raw\<close> is the response text itself. Any other exception of the decoder
  is not caught: the executor raises it, and the orchestrator writes no tags file.
\<close>

theorem unparseable_response_kept_as_error_variant:
  "generate_content e (clock w) title (take 10000 transcript) = Inr r \<longrightarrow>
     (prefix fence (strip r) \<longrightarrow>
        unfence r = join [newline] (butlast (tl (split_on newline (strip r)))))
   \<and> (\<not> prefix fence (strip r) \<longrightarrow> unfence r = strip r)
   \<and> (json_loads e (unfence r) = Inl JSONDecodeError \<longrightarrow>
        tag_episode e (clock w) transcript title
          = Inr (JObj [(''error'', JStr ''Failed to parse response''),
                       (''raw'', JStr (take 500 (unfence r)))])
      \<and> (\<not> exists_file w (tags_path b) \<longrightarrow>
           files (snd (snd (tag_step e title b transcript p w))) (tags_path b)
             = Some (json_dumps e (JObj [(''error'', JStr ''Failed to parse response''),
                                         (''raw'', JStr (take 500 (unfence r)))])))
      \<and> (length r \<le> 500 \<and> strip r = r \<and> \<not> prefix fence r \<longrightarrow> take 500 (unfence r) = r))
   \<and> (json_loads e (unfence r) = Inl err \<and> err \<noteq> JSONDecodeError \<longrightarrow>
        tag_episode e (clock w) transcript title = Inl err
      \<and> (\<not> exists_file w (tags_path b) \<longrightarrow>
           tag_step e title b transcript p w
             = (Returned True, p, log_call (Annotate title) w)))"
proof (intro impI conjI)
  assume "prefix fence (strip r)"
  then show "unfence r = join [newline] (butlast (tl (split_on newline (strip r))))"
    by (simp add: unfence_def Let_def)
next
  assume "\<not> prefix fence (strip r)"
  then show "unfence r = strip r" by (simp add: unfence_def)
next
  assume g: "generate_content e (clock w) title (take 10000 transcript) = Inr r"
    and l: "json_loads e (unfence r) = Inl JSONDecodeError"
  from g l show t: "tag_episode e (clock w) transcript title
          = Inr (JObj [(''error'', JStr ''Failed to parse response''),
                       (''raw'', JStr (take 500 (unfence r)))])"
    by (simp add: tag_episode_def parse_response_def)
  assume "\<not> exists_file w (tags_path b)"
  with t show "files (snd (snd (tag_step e title b transcript p w))) (tags_path b)
             = Some (json_dumps e (JObj [(''error'', JStr ''Failed to parse response''),
                                         (''raw'', JStr (take 500 (unfence r)))]))"
    by (simp add: tag_step_def Let_def write_text_def save_progress_def log_call_def)
next
  assume "length r \<le> 500 \<and> strip r = r \<and> \<not> prefix fence r"
  then show "take 500 (unfence r) = r" by (simp add: unfence_plain)
next
  assume g: "generate_content e (clock w) title (take 10000 transcript) = Inr r"
    and l: "json_loads e (unfence r) = Inl err \<and> err \<noteq> JSONDecodeError"
  from g l show t: "tag_episode e (clock w) transcript title = Inl err"
    by (simp add: tag_episode_def parse_response_def)
  assume "\<not> exists_file w (tags_path b)"
  with t show "tag_step e title b transcript p w
             = (Returned True, p, log_call (Annotate title) w)"
    by (simp add: tag_step_def)
qed

theorem unparseable_response_kept_as_error_variant_witness:
  "tag_episode env_garbled (clock w_fresh) ''hello'' ''Intro to MLOps'' = Inr tags_error_variant
   \<and> files (snd (snd (tag_step env_garbled ''Intro to MLOps'' ''ep1-intro'' ''hello''
                         p_fresh w_fresh)))
        (tags_path ''ep1-intro'') = Some (dumps_sample tags_error_variant)
   \<and> take 500 (unfence ''not json'') = ''not json''
   \<and> tag_episode env_nested (clock w_fresh) ''hello'' ''Intro to MLOps'' = Inl RecursionError
   \<and> tag_step env_nested ''Intro to MLOps'' ''ep1-intro'' ''hello'' p_fresh w_fresh
        = (Returned True, p_fresh, log_call (Annotate ''Intro to MLOps'') w_fresh)"
proof -
  have n: "\<not> exists_file w_fresh (tags_path ''ep1-intro'')"
    by (simp add: exists_file_def w_fresh_def tags_path_def TAGS_DIR_def)
  have f: "\<not> prefix fence ''not json''"
    using prefix_fence_hd [of "''not json''"] by auto
  have g1: "generate_content env_garbled (clock w_fresh) ''Intro to MLOps'' (take 10000 ''hello'')
             = Inr ''not json''"
    by (simp add: env_garbled_def env_ok_def)
  have l1: "json_loads env_garbled (unfence ''not json'') = Inl JSONDecodeError"
    by (simp add: env_garbled_def env_ok_def unfence_not_json loads_sample_values)
  have d: "json_dumps env_garbled = dumps_sample" by (simp add: env_garbled_def env_ok_def)
  have g2: "generate_content env_nested (clock w_fresh) ''Intro to MLOps'' (take 10000 ''hello'')
             = Inr (replicate 1000 CHR ''['')"
    by (simp add: env_nested_def env_ok_def)
  have "unfence (replicate 1000 CHR ''['') = replicate 1000 CHR ''[''"
    by (rule unfence_replicate) (simp_all add: is_space_def)
  then have l2: "json_loads env_nested (unfence (replicate 1000 CHR ''['')) = Inl RecursionError
      \<and> RecursionError \<noteq> JSONDecodeError"
    by (simp add: env_nested_def env_ok_def loads_sample_values)
  from unparseable_response_kept_as_error_variant
         [of env_garbled w_fresh "''Intro to MLOps''" "''hello''" "''not json''"
             "''ep1-intro''" p_fresh RecursionError] g1 l1 n f strip_not_json
  have 1: "tag_episode env_garbled (clock w_fresh) ''hello'' ''Intro to MLOps''
             = Inr tags_error_variant
   \<and> files (snd (snd (tag_step env_garbled ''Intro to MLOps'' ''ep1-intro'' ''hello''
                         p_fresh w_fresh)))
        (tags_path ''ep1-intro'') = Some (dumps_sample tags_error_variant)
   \<and> take 500 (unfence ''not json'') = ''not json''"
    by (simp add: unfence_not_json d tags_error_variant_def)
  from unparseable_response_kept_as_error_variant
         [of env_nested w_fresh "''Intro to MLOps''" "''hello''" "replicate 1000 CHR ''[''"
             "''ep1-intro''" p_fresh RecursionError] g2 l2 n
  have 2: "tag_episode env_nested (clock w_fresh) ''hello'' ''Intro to MLOps''
             = Inl RecursionError
   \<and> tag_step env_nested ''Intro to MLOps'' ''ep1-intro'' ''hello'' p_fresh w_fresh
        = (Returned True, p_fresh, log_call (Annotate ''Intro to MLOps'') w_fresh)"
    by blast
  from 1 2 show ?thesis by blast
qed

text \<open>
  C10. When the stripped response begins with a code fence, what is parsed is the
  response without its first and last lines. So a payload between an opening fence
  line and a closing line is parsed as the payload alone is: for a decoder that, like
  \<open>json.loads\<close>, accepts a document with whitespace around it and gives the same
  value, and a payload that the decoder accepts.
\<close>

theorem fenced_payload_parses_like_plain:
  "(prefix fence (strip r) \<longrightarrow>
      unfence r = join [newline] (butlast (tl (split_on newline (strip r)))))
   \<and> ((\<forall>s u. loads s = Inr u \<longrightarrow> loads (strip s) = Inr u)
        \<and> loads payload = Inr v
        \<and> strip r = opening @ newline # payload @ newline # closing
        \<and> prefix fence opening \<and> newline \<notin> set opening \<and> newline \<notin> set closing
        \<and> \<not> prefix fence (strip payload)
      \<longrightarrow> unfence r = payload \<and> parse_response loads r = Inr v
          \<and> parse_response loads payload = Inr v)"
proof (intro conjI impI)
  assume "prefix fence (strip r)"
  then show "unfence r = join [newline] (butlast (tl (split_on newline (strip r))))"
    by (simp add: unfence_def Let_def)
next
  assume a: "(\<forall>s u. loads s = Inr u \<longrightarrow> loads (strip s) = Inr u)
        \<and> loads payload = Inr v
        \<and> strip r = opening @ newline # payload @ newline # closing
        \<and> prefix fence opening \<and> newline \<notin> set opening \<and> newline \<notin> set closing
        \<and> \<not> prefix fence (strip payload)"
  then show u: "unfence r = payload" by (simp add: unfence_fenced)
  from a u show "parse_response loads r = Inr v" by (simp add: parse_response_def)
  from a have "unfence payload = strip payload" by (simp add: unfence_def)
  moreover from a have "loads (strip payload) = Inr v" by blast
  ultimately show "parse_response loads payload = Inr v" by (simp add: parse_response_def)
qed

theorem fenced_payload_parses_like_plain_witness:
  "unfence fenced_empty_object = ''{}''
   \<and> parse_response loads_sample fenced_empty_object = Inr (JObj [])
   \<and> parse_response loads_sample ''{}'' = Inr (JObj [])"
proof -
  have s: "strip fenced_empty_object = (fence @ ''json'') @ newline # ''{}'' @ newline # fence"
    by (simp add: strip_def lstrip_def rstrip_def fenced_empty_object_def fence_def
        newline_def is_space_def)
  have b: "strip ''{}'' = ''{}''"
    by (rule strip_id) (simp_all add: is_space_def)
  have w: "\<forall>s u. loads_sample s = Inr u \<longrightarrow> loads_sample (strip s) = Inr u"
    by (auto simp: loads_sample_def b split: if_splits)
  have n: "newline \<notin> set (fence @ ''json'')" "newline \<notin> set fence"
    by (simp_all add: fence_def newline_def)
  have f: "\<not> prefix fence (strip ''{}'')"
    using prefix_fence_hd [of "''{}''"] by (auto simp: b)
  have l: "loads_sample ''{}'' = Inr (JObj [])" by (rule loads_sample_values)
  have "unfence fenced_empty_object = ''{}''
        \<and> parse_response loads_sample fenced_empty_object = Inr (JObj [])
        \<and> parse_response loads_sample ''{}'' = Inr (JObj [])"
    using w l s n f
    by (intro mp [OF conjunct2 [OF fenced_payload_parses_like_plain
            [of fenced_empty_object loads_sample "''{}''" "JObj []"
                "fence @ ''json''" fence]]]) (simp add: fence_def)
  then show ?thesis .
qed

section \<open>The Aggregator\<close>

lemma ebind_Inr_iff: "ebind m f = Inr y \<longleftrightarrow> (\<exists>x. m = Inr x \<and> f x = Inr y)"
  by (cases m) (simp_all add: ebind_def)

lemma ebind_simps [simp]: "ebind (Inl err) f = Inl err" "ebind (Inr x) f = f x"
  by (simp_all add: ebind_def)

lemma scan_file_error_variant:
  "has_error (snd tf) = Inr True \<Longrightarrow> scan_file st tf = Inr st"
  by (simp add: scan_file_def)

lemma scan_all_append:
  "scan_all st (xs @ ys) = ebind (scan_all st xs) (\<lambda>st'. scan_all st' ys)"
  by (induction xs arbitrary: st) (auto simp: ebind_def split: sum.splits)

lemma scan_all_skip:
  "has_error (snd tf) = Inr True \<Longrightarrow> scan_all st (xs @ tf # ys) = scan_all st (xs @ ys)"
  by (simp add: scan_all_append scan_file_error_variant)

lemma map_of_bump:
  "map_of (bump d k) k' =
     (if k' = k then Some (case map_of d k of None \<Rightarrow> 1 | Some c \<Rightarrow> c + 1) else map_of d k')"
  by (induction d k rule: bump.induct) auto

lemma keys_bump:
  "map fst (bump d k) = (if k \<in> set (map fst d) then map fst d else map fst d @ [k])"
  by (induction d k rule: bump.induct) auto

lemma count_tags_Inr:
  "count_tags d tags = Inr d' \<Longrightarrow>
     d' = foldl bump d
            (map lower (concat (map (\<lambda>t. case t of JStr s \<Rightarrow> [s] | _ \<Rightarrow> []) tags)))"
proof (induction tags arbitrary: d)
  case Nil
  then show ?case by simp
next
  case (Cons t tags)
  from Cons.prems obtain k where k: "str_lower t = Inr k"
    and r: "count_tags (bump d k) tags = Inr d'"
    by (auto simp: ebind_Inr_iff)
  from k obtain s where "t = JStr s" "k = lower s" by (cases t) auto
  with Cons.IH [OF r] show ?case by simp
qed

lemma count_category_Inr:
  "count_category d data key = Inr d' \<Longrightarrow> d' = foldl bump d (map lower (tag_texts key data))"
  by (auto simp: count_category_def tag_texts_def ebind_Inr_iff dest: count_tags_Inr)

lemma scan_file_Inr:
  assumes "scan_file st tf = Inr st'"
  shows "(has_error (snd tf) = Inr True \<and> st' = st)
       \<or> (has_error (snd tf) = Inr False
          \<and> all_tech_tags st'
              = foldl bump (all_tech_tags st) (map lower (tag_texts ''tech_tags'' (snd tf)))
          \<and> all_business_tags st'
              = foldl bump (all_business_tags st) (map lower (tag_texts ''business_tags'' (snd tf)))
          \<and> all_topics st'
              = foldl bump (all_topics st) (map lower (tag_texts ''key_topics'' (snd tf)))
          \<and> map entry_file (episodes_summary st')
              = map entry_file (episodes_summary st) @ [fst tf])"
proof -
  from assms obtain b where b: "has_error (snd tf) = Inr b"
    by (auto simp: scan_file_def Let_def ebind_Inr_iff)
  show ?thesis
  proof (cases b)
    case True
    with assms b show ?thesis by (simp add: scan_file_def)
  next
    case False
    with assms b show ?thesis
      by (auto simp: scan_file_def Let_def ebind_Inr_iff dest!: count_category_Inr)
  qed
qed

lemma scan_all_Inr:
  "scan_all st scan = Inr st' \<Longrightarrow>
     all_tech_tags st'
       = foldl bump (all_tech_tags st) (map lower (category_texts ''tech_tags'' scan))
   \<and> all_business_tags st'
       = foldl bump (all_business_tags st) (map lower (category_texts ''business_tags'' scan))
   \<and> all_topics st'
       = foldl bump (all_topics st) (map lower (category_texts ''key_topics'' scan))
   \<and> map entry_file (episodes_summary st')
       = map entry_file (episodes_summary st)
         @ map fst (filter (\<lambda>tf. has_error (snd tf) = Inr False) scan)"
proof (induction scan arbitrary: st)
  case Nil
  then show ?case by (simp add: category_texts_def)
next
  case (Cons tf scan)
  from Cons.prems obtain st1 where 1: "scan_file st tf = Inr st1"
    and 2: "scan_all st1 scan = Inr st'"
    by (auto simp: ebind_Inr_iff)
  from scan_file_Inr [OF 1] Cons.IH [OF 2] show ?case
    by (auto simp: category_texts_def)
qed

lemma map_of_tally:
  "map_of (foldl bump d ks) k =
     (case map_of d k of
        None \<Rightarrow> if count_list ks k = 0 then None else Some (int (count_list ks k))
      | Some c \<Rightarrow> Some (c + int (count_list ks k)))"
proof (induction ks arbitrary: d)
  case Nil
  then show ?case by (simp split: option.splits)
next
  case (Cons a ks)
  show ?case
  proof (cases "a = k")
    case True
    then show ?thesis
      by (cases "map_of d k") (simp_all add: Cons.IH map_of_bump)
  next
    case False
    then show ?thesis
      by (cases "map_of d k") (simp_all add: Cons.IH map_of_bump)
  qed
qed

lemma first_seen_append_mem: "a \<in> set ks \<Longrightarrow> first_seen (ks @ ks') a = first_seen ks a"
  by (simp add: first_seen_def)

lemma first_seen_less: "a \<in> set ks \<Longrightarrow> first_seen ks a < length ks"
  by (induction ks) (auto simp: first_seen_def)

lemma first_seen_new: "k \<notin> set ks \<Longrightarrow> first_seen (ks @ [k]) k = length ks"
proof -
  assume "k \<notin> set ks"
  then have "takeWhile (\<lambda>x. x \<noteq> k) (ks @ [k]) = ks @ takeWhile (\<lambda>x. x \<noteq> k) [k]"
    by (intro takeWhile_append2) auto
  then show ?thesis by (simp add: first_seen_def)
qed

lemma keys_tally:
  "set (map fst (foldl bump [] ks)) = set ks
   \<and> distinct (map fst (foldl bump [] ks))
   \<and> sorted_wrt (\<lambda>a b. first_seen ks a < first_seen ks b) (map fst (foldl bump [] ks))"
proof (induction ks rule: rev_induct)
  case Nil
  then show ?case by simp
next
  case (snoc k ks)
  let ?d = "foldl bump [] ks"
  from snoc have s: "set (map fst ?d) = set ks" and d: "distinct (map fst ?d)"
    and o: "sorted_wrt (\<lambda>a b. first_seen ks a < first_seen ks b) (map fst ?d)" by blast+
  from s have s': "fst ` set ?d = set ks" by simp
  have o': "sorted_wrt (\<lambda>a b. first_seen (ks @ [k]) a < first_seen (ks @ [k]) b) (map fst ?d)"
    using o by (rule sorted_wrt_mono_rel [rotated]) (simp add: s' first_seen_append_mem)
  show ?case
  proof (cases "k \<in> set ks")
    case True
    with s d o' show ?thesis by (auto simp: keys_bump)
  next
    case False
    have "map fst (foldl bump [] (ks @ [k])) = map fst ?d @ [k]"
      using False s by (simp add: keys_bump)
    moreover have lt: "first_seen (ks @ [k]) a < first_seen (ks @ [k]) k" if "a \<in> set ks" for a
      using False that by (simp add: first_seen_append_mem first_seen_new first_seen_less)
    ultimately show ?thesis
      using s' d o' False by (auto simp: sorted_wrt_append lt)
  qed
qed

lemma count_list_map_lower:
  "count_list (map lower texts) k = length (filter (\<lambda>s. lower s = k) texts)"
  by (induction texts) auto

lemma ranked_tally:
  "ranked_descending_first_seen ks (sort_by_frequency (foldl bump [] ks))"
proof -
  let ?d = "foldl bump [] ks"
  let ?f = "\<lambda>x :: string \<times> int. - snd x"
  let ?L = "sort_key ?f ?d"
  let ?R = "\<lambda>x y :: string \<times> int. first_seen ks (fst x) < first_seen ks (fst y)"
  have "sorted (map ?f ?L)" by (rule sorted_sort_key)
  then have "sorted_wrt (\<lambda>x y. ?f x \<le> ?f y) ?L" by (simp add: sorted_map)
  then have desc: "sorted_wrt (\<lambda>x y. snd y \<le> snd x) ?L" by simp
  have o: "sorted_wrt ?R ?d"
    using keys_tally [of ks] by (simp add: sorted_wrt_map)
  have ties: "sorted_wrt ?R (filter (\<lambda>x. snd x = c) ?L)" for c
  proof -
    have "filter (\<lambda>x. snd x = c) ?L = filter (\<lambda>x. ?f x = - c) ?L"
      by (rule filter_cong) auto
    also have "\<dots> = filter (\<lambda>x. ?f x = - c) ?d" by (rule sort_key_stable)
    finally show ?thesis using o by (simp add: sorted_wrt_filter)
  qed
  show ?thesis
    unfolding ranked_descending_first_seen_def sort_by_frequency_def
    using desc ties by blast
qed

lemma is_ranking_tally: "is_ranking ks (sort_by_frequency (foldl bump [] ks))"
proof -
  let ?d = "foldl bump [] ks"
  have d: "distinct (map fst ?d)" using keys_tally by blast
  then have 1: "distinct (map fst (sort_by_frequency ?d))"
    by (simp add: sort_by_frequency_def distinct_map)
  have 2: "set (map fst (sort_by_frequency ?d)) = set ks"
    using keys_tally [of ks] by (simp add: sort_by_frequency_def)
  have 3: "snd x = int (count_list ks (fst x))" if "x \<in> set (sort_by_frequency ?d)" for x
  proof -
    from that have "(fst x, snd x) \<in> set ?d" by (simp add: sort_by_frequency_def)
    with d have "map_of ?d (fst x) = Some (snd x)" by simp
    then show ?thesis by (simp add: map_of_tally split: if_splits)
  qed
  from 1 2 3 ranked_tally [of ks] show ?thesis unfolding is_ranking_def by blast
qed

lemma sorted_wrt_ties:
  "sorted_wrt (\<lambda>x y. f y \<le> f x) xs \<Longrightarrow> (\<And>c. sorted_wrt R (filter (\<lambda>x. f x = c) xs)) \<Longrightarrow>
     sorted_wrt (\<lambda>x y. f y < f x \<or> (f x = f y \<and> R x y)) xs"
  for f :: "'a \<Rightarrow> int"
proof (induction xs)
  case Nil
  then show ?case by simp
next
  case (Cons x xs)
  have t: "sorted_wrt R (filter (\<lambda>x. f x = c) xs)" for c
    using Cons.prems(2) [of c] by (cases "f x = c") simp_all
  have h: "f y < f x \<or> (f x = f y \<and> R x y)" if "y \<in> set xs" for y
  proof (cases "f y = f x")
    case True
    with Cons.prems(2) [of "f x"] that show ?thesis by simp
  next
    case False
    with Cons.prems(1) that show ?thesis by fastforce
  qed
  from Cons.prems(1) have "sorted_wrt (\<lambda>x y. f y \<le> f x) xs" by simp
  from Cons.IH [OF this t] h show ?case by simp
qed

lemma sorted_wrt_set_unique:
  assumes asym: "\<And>x y. R x y \<Longrightarrow> \<not> R y x"
  shows "sorted_wrt R xs \<Longrightarrow> sorted_wrt R ys \<Longrightarrow> set xs = set ys \<Longrightarrow> xs = ys"
proof (induction xs arbitrary: ys)
  case Nil
  then show ?case by simp
next
  case (Cons x xs)
  from Cons.prems(3) obtain y ys' where ys: "ys = y # ys'" by (cases ys) auto
  have xy: "x = y"
  proof (rule ccontr)
    assume n: "x \<noteq> y"
    with Cons.prems(3) ys have "x \<in> set ys'" "y \<in> set xs" by auto
    with Cons.prems(1,2) ys have "R y x" "R x y" by auto
    with asym show False by blast
  qed
  from Cons.prems(1) asym have nx: "x \<notin> set xs" by auto
  from Cons.prems(2) ys asym have ny: "y \<notin> set ys'" by auto
  from Cons.prems(3) ys xy nx ny have "set xs = set ys'" by auto
  with Cons.IH [of ys'] Cons.prems(1,2) ys xy show ?case by simp
qed

lemma is_ranking_entries:
  assumes "is_ranking ks r"
  shows "set r = (\<lambda>k. (k, int (count_list ks k))) ` set ks"
proof (intro set_eqI iffI)
  fix x assume x: "x \<in> set r"
  with assms have "snd x = int (count_list ks (fst x))" "fst x \<in> set ks"
    unfolding is_ranking_def by auto
  then have "x = (fst x, int (count_list ks (fst x)))" "fst x \<in> set ks"
    by (simp_all add: prod_eq_iff)
  then show "x \<in> (\<lambda>k. (k, int (count_list ks k))) ` set ks" by (rule image_eqI)
next
  fix x assume "x \<in> (\<lambda>k. (k, int (count_list ks k))) ` set ks"
  then obtain k where k: "k \<in> set ks" "x = (k, int (count_list ks k))" by auto
  with assms have "k \<in> fst ` set r" unfolding is_ranking_def by simp
  then obtain y where y: "y \<in> set r" "fst y = k" by auto
  with assms have "snd y = int (count_list ks k)" unfolding is_ranking_def by auto
  with y k have "y = x" by (simp add: prod_eq_iff)
  with y show "x \<in> set r" by simp
qed

lemma is_ranking_unique:
  assumes "is_ranking ks r" and "is_ranking ks r'"
  shows "r' = r"
proof -
  let ?R = "\<lambda>x y :: string \<times> int. first_seen ks (fst x) < first_seen ks (fst y)"
  let ?lt = "\<lambda>x y :: string \<times> int. snd y < snd x \<or> (snd x = snd y \<and> ?R x y)"
  have s: "sorted_wrt ?lt l" if "is_ranking ks l" for l
    using that unfolding is_ranking_def ranked_descending_first_seen_def
    by (intro sorted_wrt_ties) blast+
  have "set r' = set r" using assms by (simp add: is_ranking_entries)
  moreover have "\<not> ?lt y x" if "?lt x y" for x y using that by auto
  ultimately show ?thesis
    using s [OF assms(1)] s [OF assms(2)] by (intro sorted_wrt_set_unique [of ?lt])
qed

lemma top_is_prefix_of_the_ranking:
  "(\<exists>full. is_ranking ks full)
   \<and> (\<forall>full. is_ranking ks full \<longrightarrow> take n (sort_by_frequency (foldl bump [] ks)) = take n full)"
  using is_ranking_tally [of ks] is_ranking_unique [of ks] by blast

lemma top_counts:
  "\<exists>full. take n (sort_by_frequency (foldl bump [] (map lower texts))) = take n full
     \<and> distinct (map fst full)
     \<and> set (map fst full) = lower ` set texts
     \<and> (\<forall>(k, c) \<in> set full. c = int (length (filter (\<lambda>s. lower s = k) texts)))
     \<and> sorted_wrt (\<lambda>x y. snd y \<le> snd x) full"
proof -
  let ?full = "sort_by_frequency (foldl bump [] (map lower texts))"
  from is_ranking_tally [of "map lower texts"]
  have "distinct (map fst ?full)" "set (map fst ?full) = lower ` set texts"
    "\<forall>x \<in> set ?full. snd x = int (count_list (map lower texts) (fst x))"
    "sorted_wrt (\<lambda>x y. snd y \<le> snd x) ?full"
    unfolding is_ranking_def ranked_descending_first_seen_def by simp_all
  then show ?thesis
    by (intro exI [of _ ?full]) (auto simp: count_list_map_lower)
qed

lemma take_short: "take n full = xs \<Longrightarrow> length xs < n \<Longrightarrow> full = xs"
  by (cases "length full < n") auto

lemma build_analysis_index_Inr:
  assumes "build_analysis_index ts scan = Inr a"
  shows "top_tech_themes a = take 25 (sort_by_frequency
            (foldl bump [] (map lower (category_texts ''tech_tags'' scan))))"
    and "top_business_themes a = take 20 (sort_by_frequency
            (foldl bump [] (map lower (category_texts ''business_tags'' scan))))"
    and "top_topics a = take 20 (sort_by_frequency
            (foldl bump [] (map lower (category_texts ''key_topics'' scan))))"
    and "map entry_file (episodes a)
           = map fst (filter (\<lambda>tf. has_error (snd tf) = Inr False) scan)"
    and "episodes_analyzed a = int (length (episodes a))"
    and "generated_at a = ts"
proof -
  from assms obtain st where st: "scan_all empty_tallies scan = Inr st"
    and a: "a = \<lparr>generated_at = ts,
            episodes_analyzed = int (length (episodes_summary st)),
            top_tech_themes = take 25 (sort_by_frequency (all_tech_tags st)),
            top_business_themes = take 20 (sort_by_frequency (all_business_tags st)),
            top_topics = take 20 (sort_by_frequency (all_topics st)),
            episodes = episodes_summary st\<rparr>"
    by (auto simp: build_analysis_index_def ebind_Inr_iff)
  note s = scan_all_Inr [OF st, unfolded empty_tallies_def, simplified]
  show "top_tech_themes a = take 25 (sort_by_frequency
            (foldl bump [] (map lower (category_texts ''tech_tags'' scan))))"
    using s a by simp
  show "top_business_themes a = take 20 (sort_by_frequency
            (foldl bump [] (map lower (category_texts ''business_tags'' scan))))"
    using s a by simp
  show "top_topics a = take 20 (sort_by_frequency
            (foldl bump [] (map lower (category_texts ''key_topics'' scan))))"
    using s a by simp
  show "map entry_file (episodes a)
           = map fst (filter (\<lambda>tf. has_error (snd tf) = Inr False) scan)"
    using s a by simp
  show "episodes_analyzed a = int (length (episodes a))" using a by simp
  show "generated_at a = ts" using a by simp
qed

text \<open>
  C5, as the claim states it, fails: the ranked lists depend on the order in which the
  tags files are scanned, which \<open>TAGS_DIR.glob("*.json")\<close> does not fix. The same two
  artifacts scanned in the two possible orders give two different technology lists.
\<close>

theorem ranked_lists_depend_on_scan_order:
  "set (rev scan_two) = set scan_two
   \<and> (\<exists>a b. build_analysis_index ''2024-05-01'' scan_two = Inr a
          \<and> build_analysis_index ''2024-05-01'' (rev scan_two) = Inr b
          \<and> top_tech_themes a
              = [(''mlflow'', 2), (''kubernetes'', 1), (''docker'', 1), (''ray'', 1)]
          \<and> top_tech_themes b
              = [(''mlflow'', 2), (''ray'', 1), (''kubernetes'', 1), (''docker'', 1)])"
proof -
  have a: "build_analysis_index ''2024-05-01'' scan_two = Inr index_two"
    unfolding index_two_def by code_simp
  have b: "build_analysis_index ''2024-05-01'' (rev scan_two) = Inr index_two_rev"
    unfolding index_two_rev_def by code_simp
  have "top_tech_themes index_two
          = [(''mlflow'', 2), (''kubernetes'', 1), (''docker'', 1), (''ray'', 1)]"
       "top_tech_themes index_two_rev
          = [(''mlflow'', 2), (''ray'', 1), (''kubernetes'', 1), (''docker'', 1)]"
    by (simp_all add: index_two_def index_two_rev_def)
  with a b show ?thesis by simp
qed

text \<open>
  C5, amended. For a fixed scan order of the tags files, each ranked list of the index
  is determined by the tag texts met in that order: the keys met have exactly one
  ranking (every key once, with the number of times it was met, frequencies descending,
  keys of one frequency in the order in which they were first met), and the list is the
  first 25 (technology) or first 20 (business, topics) entries of it. A second run over
  the same scan, at another moment, gives the same lists.
\<close>

theorem ranked_lists_are_the_stable_ranking:
  assumes "build_analysis_index ts scan = Inr a"
  shows "(\<exists>full. is_ranking (map lower (category_texts ''tech_tags'' scan)) full)
       \<and> (\<forall>full. is_ranking (map lower (category_texts ''tech_tags'' scan)) full
             \<longrightarrow> top_tech_themes a = take 25 full)
       \<and> (\<exists>full. is_ranking (map lower (category_texts ''business_tags'' scan)) full)
       \<and> (\<forall>full. is_ranking (map lower (category_texts ''business_tags'' scan)) full
             \<longrightarrow> top_business_themes a = take 20 full)
       \<and> (\<exists>full. is_ranking (map lower (category_texts ''key_topics'' scan)) full)
       \<and> (\<forall>full. is_ranking (map lower (category_texts ''key_topics'' scan)) full
             \<longrightarrow> top_topics a = take 20 full)
       \<and> (\<exists>a'. build_analysis_index ts' scan = Inr a'
              \<and> top_tech_themes a' = top_tech_themes a
              \<and> top_business_themes a' = top_business_themes a
              \<and> top_topics a' = top_topics a)"
proof -
  from assms obtain st where st: "scan_all empty_tallies scan = Inr st"
    by (auto simp: build_analysis_index_def ebind_Inr_iff)
  then obtain a' where a': "build_analysis_index ts' scan = Inr a'"
    by (simp add: build_analysis_index_def)
  note x = build_analysis_index_Inr [OF assms]
  note y = build_analysis_index_Inr [OF a']
  have "top_tech_themes a' = top_tech_themes a" using x(1) y(1) by simp
  moreover have "top_business_themes a' = top_business_themes a" using x(2) y(2) by simp
  moreover have "top_topics a' = top_topics a" using x(3) y(3) by simp
  ultimately have r: "\<exists>a'. build_analysis_index ts' scan = Inr a'
              \<and> top_tech_themes a' = top_tech_themes a
              \<and> top_business_themes a' = top_business_themes a
              \<and> top_topics a' = top_topics a"
    using a' by blast
  note t = top_is_prefix_of_the_ranking
  from t [of "map lower (category_texts ''tech_tags'' scan)" 25]
       t [of "map lower (category_texts ''business_tags'' scan)" 20]
       t [of "map lower (category_texts ''key_topics'' scan)" 20] r
  show ?thesis unfolding x(1,2,3) by blast
qed

theorem ranked_lists_are_the_stable_ranking_witness:
  "\<exists>a. build_analysis_index ''2024-05-01'' scan_two = Inr a
     \<and> top_tech_themes a = [(''mlflow'', 2), (''kubernetes'', 1), (''docker'', 1), (''ray'', 1)]
     \<and> top_business_themes a = [(''roi'', 2), (''hiring'', 1)]
     \<and> top_topics a = [(''model serving'', 2)]"
proof -
  have b: "build_analysis_index ''2024-05-01'' scan_two = Inr index_two"
    unfolding index_two_def by code_simp
  have t: "map lower (category_texts ''tech_tags'' scan_two)
             = [''kubernetes'', ''mlflow'', ''docker'', ''mlflow'', ''ray'']"
    by code_simp
  have u: "map lower (category_texts ''business_tags'' scan_two) = [''roi'', ''roi'', ''hiring'']"
    by code_simp
  have v: "map lower (category_texts ''key_topics'' scan_two)
             = [''model serving'', ''model serving'']"
    by code_simp
  have 1: "is_ranking [''kubernetes'', ''mlflow'', ''docker'', ''mlflow'', ''ray'']
             [(''mlflow'', 2), (''kubernetes'', 1), (''docker'', 1), (''ray'', 1)]"
    by (auto simp: is_ranking_def ranked_descending_first_seen_def first_seen_def)
  have 2: "is_ranking [''roi'', ''roi'', ''hiring''] [(''roi'', 2), (''hiring'', 1)]"
    by (auto simp: is_ranking_def ranked_descending_first_seen_def first_seen_def)
  have 3: "is_ranking [''model serving'', ''model serving''] [(''model serving'', 2)]"
    by (auto simp: is_ranking_def ranked_descending_first_seen_def first_seen_def)
  from ranked_lists_are_the_stable_ranking [OF b, of "''2024-06-01''"] 1 2 3
  have "top_tech_themes index_two
          = take 25 [(''mlflow'', 2), (''kubernetes'', 1), (''docker'', 1), (''ray'', 1)]"
    "top_business_themes index_two = take 20 [(''roi'', 2), (''hiring'', 1)]"
    "top_topics index_two = take 20 [(''model serving'', 2)]"
    unfolding t u v by blast+
  with b show ?thesis by simp
qed

text \<open>
  C6. Each ranked list is the beginning of a list that holds every counted key exactly
  once: the keys are the lower-cased tag texts of the category, over all scanned files
  that are not error variants; a key stands with the number of tag texts whose
  lower-cased form it is, so \<open>MLflow\<close> and \<open>mlflow\<close> count 2 under \<open>mlflow\<close>; frequencies
  descend. The technology list is the first 25 entries, the business and topic lists
  the first 20.
\<close>

theorem counts_by_lowercased_key_and_top_n:
  assumes "build_analysis_index ts scan = Inr a"
  shows "(\<exists>full. top_tech_themes a = take 25 full
            \<and> distinct (map fst full)
            \<and> set (map fst full) = lower ` set (category_texts ''tech_tags'' scan)
            \<and> (\<forall>(k, c) \<in> set full.
                 c = int (length (filter (\<lambda>s. lower s = k) (category_texts ''tech_tags'' scan))))
            \<and> sorted_wrt (\<lambda>x y. snd y \<le> snd x) full)
       \<and> (\<exists>full. top_business_themes a = take 20 full
            \<and> distinct (map fst full)
            \<and> set (map fst full) = lower ` set (category_texts ''business_tags'' scan)
            \<and> (\<forall>(k, c) \<in> set full.
                 c = int (length (filter (\<lambda>s. lower s = k)
                                    (category_texts ''business_tags'' scan))))
            \<and> sorted_wrt (\<lambda>x y. snd y \<le> snd x) full)
       \<and> (\<exists>full. top_topics a = take 20 full
            \<and> distinct (map fst full)
            \<and> set (map fst full) = lower ` set (category_texts ''key_topics'' scan)
            \<and> (\<forall>(k, c) \<in> set full.
                 c = int (length (filter (\<lambda>s. lower s = k) (category_texts ''key_topics'' scan))))
            \<and> sorted_wrt (\<lambda>x y. snd y \<le> snd x) full)"
  unfolding build_analysis_index_Inr (1,2,3) [OF assms]
  by (intro conjI top_counts)

theorem counts_by_lowercased_key_and_top_n_witness:
  "\<exists>a. build_analysis_index ''2024-05-01'' scan_alphabet = Inr a
     \<and> top_tech_themes a =
         [(''mlflow'', 2), (''a'', 1), (''b'', 1), (''c'', 1), (''d'', 1), (''e'', 1),
          (''f'', 1), (''g'', 1), (''h'', 1), (''i'', 1), (''j'', 1), (''k'', 1),
          (''l'', 1), (''m'', 1), (''n'', 1), (''o'', 1), (''p'', 1), (''q'', 1),
          (''r'', 1), (''s'', 1), (''t'', 1), (''u'', 1), (''v'', 1), (''w'', 1),
          (''x'', 1)]
     \<and> length (filter (\<lambda>s. lower s = ''mlflow'') (category_texts ''tech_tags'' scan_alphabet))
         = 2
     \<and> ''ray'' \<in> lower ` set (category_texts ''tech_tags'' scan_alphabet)"
proof -
  have b: "build_analysis_index ''2024-05-01'' scan_alphabet = Inr index_alphabet"
    unfolding index_alphabet_def by code_simp
  from counts_by_lowercased_key_and_top_n [OF b, THEN conjunct1]
  obtain full where e: "top_tech_themes index_alphabet = take 25 full
            \<and> distinct (map fst full)
            \<and> set (map fst full) = lower ` set (category_texts ''tech_tags'' scan_alphabet)
            \<and> (\<forall>(k, c) \<in> set full.
                 c = int (length (filter (\<lambda>s. lower s = k)
                                    (category_texts ''tech_tags'' scan_alphabet))))
            \<and> sorted_wrt (\<lambda>x y. snd y \<le> snd x) full" ..
  note f = e [THEN conjunct1]
  note c = e [THEN conjunct2, THEN conjunct2, THEN conjunct2, THEN conjunct1]
  have "(''mlflow'', 2) \<in> set (top_tech_themes index_alphabet)"
    unfolding index_alphabet_def by simp
  then have "(''mlflow'', 2) \<in> set (take 25 full)" unfolding f .
  then have "(''mlflow'', 2) \<in> set full" by (rule in_set_takeD)
  from bspec [OF c this]
  have m: "length (filter (\<lambda>s. lower s = ''mlflow'')
                     (category_texts ''tech_tags'' scan_alphabet)) = 2"
    by simp
  have l: "lower ''Ray'' = ''ray''" by code_simp
  have "''Ray'' \<in> set (category_texts ''tech_tags'' scan_alphabet)" by code_simp
  then have "lower ''Ray'' \<in> lower ` set (category_texts ''tech_tags'' scan_alphabet)"
    by (rule imageI)
  then have r: "''ray'' \<in> lower ` set (category_texts ''tech_tags'' scan_alphabet)"
    unfolding l .
  have t: "top_tech_themes index_alphabet =
         [(''mlflow'', 2), (''a'', 1), (''b'', 1), (''c'', 1), (''d'', 1), (''e'', 1),
          (''f'', 1), (''g'', 1), (''h'', 1), (''i'', 1), (''j'', 1), (''k'', 1),
          (''l'', 1), (''m'', 1), (''n'', 1), (''o'', 1), (''p'', 1), (''q'', 1),
          (''r'', 1), (''s'', 1), (''t'', 1), (''u'', 1), (''v'', 1), (''w'', 1),
          (''x'', 1)]"
    unfolding index_alphabet_def by simp
  from b t m r show ?thesis by (intro exI [of _ index_alphabet] conjI)
qed

text \<open>
  C8, as the claim states it, fails in its last part: an error variant is not listed
  among the per-item summaries. The index built from one error variant alone has no
  entries at all.
\<close>

theorem error_variant_is_not_in_summaries:
  "build_analysis_index ''2024-05-01'' [(''ep1-intro'', tags_error_variant)] =
     Inr \<lparr>generated_at = ''2024-05-01'', episodes_analyzed = 0, top_tech_themes = [],
          top_business_themes = [], top_topics = [], episodes = []\<rparr>"
  by code_simp

text \<open>
  C8, amended. A tags file that holds an error variant, a dict with the key \<open>error\<close>,
  is passed over: the Aggregator does not fail on it, and the index (frequency counts,
  number of episodes analysed and per-item summaries alike) is the one built from the scan
  without that file.
\<close>

theorem error_variant_is_passed_over:
  assumes "data = JObj kvs" and "''error'' \<in> set (map fst kvs)"
  shows "scan_file st (name, data) = Inr st
       \<and> build_analysis_index ts (before @ (name, data) # after)
           = build_analysis_index ts (before @ after)"
  using assms by (simp add: build_analysis_index_def scan_all_skip scan_file_error_variant)

theorem error_variant_is_passed_over_witness:
  "scan_file empty_tallies (''ep3-garbled'', tags_error_variant) = Inr empty_tallies
   \<and> build_analysis_index ''2024-05-01''
        [(''ep1-intro'', tags_mlflow_upper), (''ep3-garbled'', tags_error_variant),
         (''ep2-feature-stores'', tags_mlflow_lower)]
       = build_analysis_index ''2024-05-01''
        [(''ep1-intro'', tags_mlflow_upper), (''ep2-feature-stores'', tags_mlflow_lower)]"
  using error_variant_is_passed_over
          [of tags_error_variant
              "[(''error'', JStr ''Failed to parse response''), (''raw'', JStr ''not json'')]"
              empty_tallies "''ep3-garbled''" "''2024-05-01''"
              "[(''ep1-intro'', tags_mlflow_upper)]"
              "[(''ep2-feature-stores'', tags_mlflow_lower)]"]
  by (simp add: tags_error_variant_def)

end
